theory Spec2Isabelle
  imports Main "HOL-Library.Sublist"
begin

section \<open>Python strings\<close>

text \<open>
  A Python \<open>str\<close> is a sequence of code points. The model covers the code points below
  256, one \<open>char\<close> each (\<open>code c\<close> is Python's \<open>ord(c)\<close>); \<open>len\<close> is \<open>length\<close>. On this
  range \<open>str.lower()\<close> maps A-Z and the capital letters 0xC0-0xDE (without the
  multiplication sign 0xD7) to the code point 32 above, and \<open>str.strip()\<close> removes the
  code points for which \<open>str.isspace()\<close> holds from both ends.
\<close>

definition code :: "char \<Rightarrow> nat" where
  "code c = of_char c"

definition py_isspace :: "char \<Rightarrow> bool" where
  "py_isspace c = (code c \<in> {9, 10, 11, 12, 13, 28, 29, 30, 31, 32, 133, 160})"

definition py_isupper :: "char \<Rightarrow> bool" where
  "py_isupper c =
     ((65 \<le> code c \<and> code c \<le> 90) \<or> (192 \<le> code c \<and> code c \<le> 222 \<and> code c \<noteq> 215))"

definition py_lower_char :: "char \<Rightarrow> char" where
  "py_lower_char c = (if py_isupper c then char_of (code c + 32) else c)"

definition py_lower :: "string \<Rightarrow> string" where
  "py_lower s = map py_lower_char s"

definition py_strip :: "string \<Rightarrow> string" where
  "py_strip s = rev (dropWhile py_isspace (rev (dropWhile py_isspace s)))"

section \<open>Regular expressions of the \<open>re\<close> module\<close>

text \<open>
  The patterns of \<open>sanitize_hostname\<close> use anchors, character classes, sequencing,
  \<open>?\<close>, \<open>*\<close>, \<open>+\<close> and \<open>{0,n}\<close>. A character class is a list of inclusive ranges,
  possibly negated. \<open>run r s ps\<close> lists the positions of \<open>s\<close> at which a match of \<open>r\<close>
  that starts at one of the positions \<open>ps\<close> can end. \<open>^\<close> matches at position 0 only and
  \<open>$\<close> at the end of the string or before a newline that ends it (no flags are given).
  A repetition that passes a position twice adds nothing, so \<open>*\<close> needs at most
  \<open>length s\<close> rounds.
\<close>

datatype cset = In "(char \<times> char) list" | NotIn "(char \<times> char) list"

datatype regex =
    Bol
  | Eol
  | Cls cset
  | Seq regex regex
  | Opt regex
  | Star regex
  | Plus regex
  | Upto regex nat

definition in_range :: "char \<Rightarrow> char \<times> char \<Rightarrow> bool" where
  "in_range c r = (code (fst r) \<le> code c \<and> code c \<le> code (snd r))"

fun in_cset :: "char \<Rightarrow> cset \<Rightarrow> bool" where
  "in_cset c (In rs) = list_ex (in_range c) rs"
| "in_cset c (NotIn rs) = (\<not> list_ex (in_range c) rs)"

primrec upto_times :: "nat \<Rightarrow> (nat list \<Rightarrow> nat list) \<Rightarrow> nat list \<Rightarrow> nat list" where
  "upto_times 0 f ps = ps"
| "upto_times (Suc n) f ps = ps @ upto_times n f (f ps)"

definition at_eol :: "string \<Rightarrow> nat \<Rightarrow> bool" where
  "at_eol s i = (i = length s \<or> (Suc i = length s \<and> s ! i = CHR 0x0A))"

fun run :: "regex \<Rightarrow> string \<Rightarrow> nat list \<Rightarrow> nat list" where
  "run Bol s ps = filter (\<lambda>i. i = 0) ps"
| "run Eol s ps = filter (at_eol s) ps"
| "run (Cls cs) s ps = map Suc (filter (\<lambda>i. i < length s \<and> in_cset (s ! i) cs) ps)"
| "run (Seq a b) s ps = run b s (run a s ps)"
| "run (Opt a) s ps = run a s ps @ ps"
| "run (Star a) s ps = upto_times (length s) (run a s) ps"
| "run (Plus a) s ps = upto_times (length s) (run a s) (run a s ps)"
| "run (Upto a n) s ps = upto_times n (run a s) ps"

definition re_match :: "regex \<Rightarrow> string \<Rightarrow> bool" where
  "re_match r s = (run r s [0] \<noteq> [])"

definition re_search :: "regex \<Rightarrow> string \<Rightarrow> bool" where
  "re_search r s = (run r s [0..<Suc (length s)] \<noteq> [])"

section \<open>Configuration\<close>

text \<open>
  The class \<open>Config\<close>: the values \<open>os.getenv\<close> returned at start-up (\<open>None\<close> for an unset
  variable). The two rate limits are kept in parsed form: the number of requests and the
  length of the window in seconds.
\<close>

record rate_limit =
  amount :: nat
  per_seconds :: nat

record config =
  AWX_API_ENDPOINT :: "string option"
  AWX_USERNAME :: "string option"
  AWX_PASSWORD :: "string option"
  AWX_TOKEN :: "string option"
  AWX_TEMPLATE_NAME :: "string option"
  AWX_WORKFLOW_NAME :: "string option"
  GLOBAL_RATE_LIMIT :: rate_limit
  PER_IP_RATE_LIMIT :: rate_limit
  MAX_HOSTNAME_LENGTH :: int
  MIN_HOSTNAME_LENGTH :: int

text \<open>Truth value of an optional string: \<open>None\<close> and the empty string are false.\<close>

fun truthy_opt :: "string option \<Rightarrow> bool" where
  "truthy_opt None = False"
| "truthy_opt (Some s) = (s \<noteq> [])"

text \<open>
  \<open>Config.validate\<close>: the message of the \<open>ValueError\<close> it raises, or \<open>None\<close> when it
  returns.
\<close>

definition validate :: "config \<Rightarrow> string option" where
  "validate cfg =
     (if \<not> truthy_opt (AWX_API_ENDPOINT cfg) then Some ''AWX_API_ENDPOINT is required''
      else if \<not> (truthy_opt (AWX_USERNAME cfg) \<and> truthy_opt (AWX_PASSWORD cfg))
              \<and> \<not> truthy_opt (AWX_TOKEN cfg)
        then Some ''Either AWX_USERNAME/AWX_PASSWORD or AWX_TOKEN is required''
      else if \<not> truthy_opt (AWX_TEMPLATE_NAME cfg) \<and> \<not> truthy_opt (AWX_WORKFLOW_NAME cfg)
        then Some ''Either AWX_TEMPLATE_NAME or AWX_WORKFLOW_NAME is required''
      else if truthy_opt (AWX_TEMPLATE_NAME cfg) \<and> truthy_opt (AWX_WORKFLOW_NAME cfg)
        then Some ''Cannot specify both AWX_TEMPLATE_NAME and AWX_WORKFLOW_NAME''
      else None)"

text \<open>
  The check at import: a failed validation is logged, and raised again unless the
  variable \<open>FLASK_ENV\<close> is \<open>development\<close>. \<open>starts\<close> tells whether the module loads.
\<close>

definition starts :: "string option \<Rightarrow> config \<Rightarrow> bool" where
  "starts flask_env cfg = (validate cfg = None \<or> flask_env = Some ''development'')"

text \<open>
  The environment of the test suite with the defaults of \<open>Config\<close>:
  \<open>100 per hour\<close>, \<open>1 per 5 minutes\<close>, lengths 1 to 253.
\<close>

definition test_config :: config where
  "test_config =
     \<lparr> AWX_API_ENDPOINT = Some ''https://test.example.com'',
       AWX_USERNAME = Some ''test'',
       AWX_PASSWORD = Some ''test'',
       AWX_TOKEN = None,
       AWX_TEMPLATE_NAME = Some ''test-template'',
       AWX_WORKFLOW_NAME = None,
       GLOBAL_RATE_LIMIT = \<lparr> amount = 100, per_seconds = 3600 \<rparr>,
       PER_IP_RATE_LIMIT = \<lparr> amount = 1, per_seconds = 300 \<rparr>,
       MAX_HOSTNAME_LENGTH = 253,
       MIN_HOSTNAME_LENGTH = 1 \<rparr>"

section \<open>The hostname sanitizer\<close>

definition alnum :: "(char \<times> char) list" where
  "alnum = [(CHR ''a'', CHR ''z''), (CHR ''A'', CHR ''Z''), (CHR ''0'', CHR ''9'')]"

definition alnum_hyphen :: "(char \<times> char) list" where
  "alnum_hyphen = alnum @ [(CHR ''-'', CHR ''-'')]"

definition dot :: regex where
  "dot = Cls (In [(CHR ''.'', CHR ''.'')])"

text \<open>The label \<open>[a-zA-Z0-9]([a-zA-Z0-9\-]{0,61}[a-zA-Z0-9])?\<close>.\<close>

definition label_pattern :: regex where
  "label_pattern =
     Seq (Cls (In alnum)) (Opt (Seq (Upto (Cls (In alnum_hyphen)) 61) (Cls (In alnum))))"

definition hostname_pattern :: regex where
  "hostname_pattern =
     Seq Bol (Seq label_pattern (Seq (Star (Seq dot label_pattern)) Eol))"

text \<open>
  The list \<open>suspicious_patterns\<close>: \<open>\.\.+\<close>, \<open>^-\<close>, \<open>-$\<close> and
  \<open>[^a-zA-Z0-9\.-]\<close>.
\<close>

definition suspicious_patterns :: "regex list" where
  "suspicious_patterns =
     [ Seq dot (Plus dot),
       Seq Bol (Cls (In [(CHR ''-'', CHR ''-'')])),
       Seq (Cls (In [(CHR ''-'', CHR ''-'')])) Eol,
       Cls (NotIn (alnum @ [(CHR ''.'', CHR ''.''), (CHR ''-'', CHR ''-'')])) ]"

text \<open>
  \<open>sanitize_hostname\<close>, for an argument that is a string or \<open>None\<close>; the log lines are
  left out.
\<close>

definition sanitize_hostname :: "config \<Rightarrow> string option \<Rightarrow> string option" where
  "sanitize_hostname cfg raw =
     (case raw of
        None \<Rightarrow> None
      | Some s \<Rightarrow>
          if s = [] then None
          else
            let hostname = py_lower (py_strip s) in
            if int (length hostname) < MIN_HOSTNAME_LENGTH cfg
               \<or> int (length hostname) > MAX_HOSTNAME_LENGTH cfg then None
            else if \<not> re_match hostname_pattern hostname then None
            else if list_ex (\<lambda>pattern. re_search pattern hostname) suspicious_patterns then None
            else Some hostname)"

section \<open>Decoded JSON and the Python operations on it\<close>

text \<open>
  What \<open>json.loads\<close> returns, with integers for numbers (no floats). \<open>JObj\<close> holds the
  items of a \<open>dict\<close>, whose keys are distinct.
\<close>

datatype json =
    JNull
  | JBool bool
  | JNum int
  | JStr string
  | JArr "json list"
  | JObj "(string \<times> json) list"

fun truthy :: "json \<Rightarrow> bool" where
  "truthy JNull = False"
| "truthy (JBool b) = b"
| "truthy (JNum n) = (n \<noteq> 0)"
| "truthy (JStr s) = (s \<noteq> [])"
| "truthy (JArr xs) = (xs \<noteq> [])"
| "truthy (JObj kvs) = (kvs \<noteq> [])"

fun type_name :: "json \<Rightarrow> string" where
  "type_name JNull = ''NoneType''"
| "type_name (JBool b) = ''bool''"
| "type_name (JNum n) = ''int''"
| "type_name (JStr s) = ''str''"
| "type_name (JArr xs) = ''list''"
| "type_name (JObj kvs) = ''dict''"

text \<open>
  An exception, by the class the handlers of \<open>trigger_awx_job\<close> tell apart
  (\<open>requests.exceptions.Timeout\<close>, another \<open>RequestException\<close>, any other \<open>Exception\<close>)
  and its text \<open>str(e)\<close>.
\<close>

datatype exn = Timeout string | RequestException string | Exception string

text \<open>A name between apostrophes, as the texts of the built-in exceptions print it.\<close>

definition quoted :: "string \<Rightarrow> string" where
  "quoted s = [CHR 0x27] @ s @ [CHR 0x27]"

text \<open>\<open>x.get(key, default)\<close>: only a \<open>dict\<close> has the attribute.\<close>

fun py_get :: "json \<Rightarrow> string \<Rightarrow> json \<Rightarrow> exn + json" where
  "py_get (JObj kvs) k d = Inr (case map_of kvs k of Some v \<Rightarrow> v | None \<Rightarrow> d)"
| "py_get x k d =
     Inl (Exception (quoted (type_name x) @ '' object has no attribute '' @ quoted ''get''))"

text \<open>\<open>x[0]\<close>; a decoded \<open>dict\<close> has string keys only, so the key 0 is missing.\<close>

fun py_first :: "json \<Rightarrow> exn + json" where
  "py_first (JArr []) = Inl (Exception ''list index out of range'')"
| "py_first (JArr (x # xs)) = Inr x"
| "py_first (JStr []) = Inl (Exception ''string index out of range'')"
| "py_first (JStr (c # cs)) = Inr (JStr [c])"
| "py_first (JObj kvs) = Inl (Exception ''0'')"
| "py_first x = Inl (Exception (quoted (type_name x) @ '' object is not subscriptable''))"

text \<open>\<open>x['id']\<close>; the text of a \<open>KeyError\<close> is the \<open>repr\<close> of the key.\<close>

fun py_item_id :: "json \<Rightarrow> exn + json" where
  "py_item_id (JObj kvs) =
     (case map_of kvs ''id'' of Some v \<Rightarrow> Inr v | None \<Rightarrow> Inl (Exception (quoted ''id'')))"
| "py_item_id (JArr xs) = Inl (Exception ''list indices must be integers or slices, not str'')"
| "py_item_id (JStr s) =
     Inl (Exception (''string indices must be integers, not '' @ quoted ''str''))"
| "py_item_id x = Inl (Exception (quoted (type_name x) @ '' object is not subscriptable''))"

text \<open>An optional string in an f-string: \<open>None\<close> prints as its name.\<close>

fun fmt_opt :: "string option \<Rightarrow> string" where
  "fmt_opt None = ''None''"
| "fmt_opt (Some s) = s"

text \<open>Decimal digits of a number, as \<open>str\<close> prints an \<open>int\<close>.\<close>

fun digits :: "nat \<Rightarrow> string" where
  "digits n = (if n < 10 then [char_of (48 + n)] else digits (n div 10) @ [char_of (48 + n mod 10)])"

definition str_int :: "int \<Rightarrow> string" where
  "str_int i = (if i < 0 then CHR ''-'' # digits (nat (- i)) else digits (nat i))"

section \<open>Basic authentication: UTF-8 and base64\<close>

text \<open>
  \<open>str.encode()\<close> on code points below 256, and \<open>base64.b64encode\<close> (RFC 4648) on the
  bytes, each a number below 256.
\<close>

definition utf8 :: "string \<Rightarrow> nat list" where
  "utf8 s =
     concat (map (\<lambda>c. if code c < 128 then [code c]
                         else [192 + code c div 64, 128 + code c mod 64]) s)"

definition b64_alphabet :: string where
  "b64_alphabet = ''ABCDEFGHIJKLMNOPQRSTUVWXYZabcdefghijklmnopqrstuvwxyz0123456789+/''"

definition b64_char :: "nat \<Rightarrow> char" where
  "b64_char n = b64_alphabet ! n"

fun b64encode :: "nat list \<Rightarrow> string" where
  "b64encode [] = []"
| "b64encode [a] = [b64_char (a div 4), b64_char (a mod 4 * 16), CHR ''='', CHR ''='']"
| "b64encode [a, b] =
     [b64_char (a div 4), b64_char (a mod 4 * 16 + b div 16), b64_char (b mod 16 * 4), CHR ''='']"
| "b64encode (a # b # c # rest) =
     [b64_char (a div 4), b64_char (a mod 4 * 16 + b div 16),
      b64_char (b mod 16 * 4 + c div 64), b64_char (c mod 64)] @ b64encode rest"

definition get_awx_auth_headers :: "config \<Rightarrow> (string \<times> string) list" where
  "get_awx_auth_headers cfg =
     (if truthy_opt (AWX_TOKEN cfg)
      then [(''Authorization'', ''Bearer '' @ fmt_opt (AWX_TOKEN cfg))]
      else
        let credentials =
              b64encode (utf8 (fmt_opt (AWX_USERNAME cfg) @ '':'' @ fmt_opt (AWX_PASSWORD cfg)))
        in [(''Authorization'', ''Basic '' @ credentials)])"

section \<open>Outbound calls\<close>

text \<open>
  A call of \<open>requests.get\<close> or \<open>requests.post\<close> and what comes back: an exception, or a
  response with its status line and what \<open>response.json()\<close> does (the decoded body or
  an exception).
\<close>

datatype http_verb = GET | POST

record request =
  verb :: http_verb
  url :: string
  headers :: "(string \<times> string) list"
  json_payload :: "json option"
  timeout :: nat

record response =
  status_code :: int
  reason :: string
  response_url :: string
  json_result :: "exn + json"

text \<open>
  \<open>Response.raise_for_status\<close> raises \<open>HTTPError\<close>, a \<open>RequestException\<close>, for the status
  codes 400 to 599 and returns for every other one.
\<close>

definition http_error_msg :: "response \<Rightarrow> string \<Rightarrow> string" where
  "http_error_msg r side =
     str_int (status_code r) @ '' '' @ side @ '' Error: '' @ reason r
       @ '' for url: '' @ response_url r"

definition raise_for_status :: "response \<Rightarrow> exn + unit" where
  "raise_for_status r =
     (if 400 \<le> status_code r \<and> status_code r < 500
        then Inl (RequestException (http_error_msg r ''Client''))
      else if 500 \<le> status_code r \<and> status_code r < 600
        then Inl (RequestException (http_error_msg r ''Server''))
      else Inr ())"

text \<open>
  The controller is a black box: \<open>send\<close> answers a request from a state \<open>'w\<close> of the
  outside world and gives the next state. \<open>py_str\<close> is Python's \<open>str\<close> on a decoded
  value, which the f-string of the launch URL applies to the id.
\<close>

record 'w env =
  send :: "request \<Rightarrow> 'w \<Rightarrow> (exn + response) \<times> 'w"
  py_str :: "json \<Rightarrow> string"

text \<open>
  A computation that may raise: it runs on the state of the world paired with the list
  of the requests sent so far, and returns an exception or a value.
\<close>

type_synonym 'w net = "'w \<times> request list"

type_synonym ('a, 'w) action = "'w net \<Rightarrow> (exn + 'a) \<times> 'w net"

definition returns :: "'a \<Rightarrow> ('a, 'w) action" where
  "returns a st = (Inr a, st)"

definition lift :: "exn + 'a \<Rightarrow> ('a, 'w) action" where
  "lift r st = (r, st)"

definition and_then :: "('a, 'w) action \<Rightarrow> ('a \<Rightarrow> ('b, 'w) action) \<Rightarrow> ('b, 'w) action" where
  "and_then m f st =
     (case m st of (Inl e, st') \<Rightarrow> (Inl e, st') | (Inr a, st') \<Rightarrow> f a st')"

definition requests_call :: "'w env \<Rightarrow> request \<Rightarrow> (response, 'w) action" where
  "requests_call env rq st =
     (case send env rq (fst st) of (r, w') \<Rightarrow> (r, (w', snd st @ [rq])))"

section \<open>The controller client\<close>

text \<open>
  The result \<open>dict\<close> of \<open>trigger_awx_job\<close>: \<open>Success job_id job_type hostname\<close> for
  \<open>{'success': True, 'job_id': .., 'job_type': .., 'hostname': ..}\<close> and \<open>Failure error\<close>
  for \<open>{'success': False, 'error': ..}\<close>.
\<close>

datatype job_result = Success json string string | Failure string

definition lookup_request :: "config \<Rightarrow> string \<Rightarrow> string \<Rightarrow> request" where
  "lookup_request cfg path name =
     \<lparr> verb = GET,
       url = fmt_opt (AWX_API_ENDPOINT cfg) @ path @ ''?name='' @ name,
       headers = (''Content-Type'', ''application/json'') # get_awx_auth_headers cfg,
       json_payload = None,
       timeout = 10 \<rparr>"

definition launch_request :: "'w env \<Rightarrow> config \<Rightarrow> string \<Rightarrow> json \<Rightarrow> string \<Rightarrow> request" where
  "launch_request env cfg path template_id hostname =
     \<lparr> verb = POST,
       url = fmt_opt (AWX_API_ENDPOINT cfg) @ path @ py_str env template_id @ ''/launch/'',
       headers = (''Content-Type'', ''application/json'') # get_awx_auth_headers cfg,
       json_payload =
         Some (JObj [(''limit'', JStr hostname),
                     (''extra_vars'', JObj [(''target_hostname'', JStr hostname)])]),
       timeout = 10 \<rparr>"

text \<open>
  The two branches of the \<open>try\<close> block are the same code up to four strings: the path
  of the collection, the configured name, the message when the name is not found and the
  job type. \<open>launch_named\<close> is that code.
\<close>

definition launch_named ::
  "'w env \<Rightarrow> config \<Rightarrow> string \<Rightarrow> string \<Rightarrow> string \<Rightarrow> string \<Rightarrow> string
     \<Rightarrow> (job_result option, 'w) action" where
  "launch_named env cfg hostname path name not_found job_type =
     and_then (requests_call env (lookup_request cfg path name)) (\<lambda>response.
     and_then (lift (raise_for_status response)) (\<lambda>_.
     and_then (lift (json_result response)) (\<lambda>found.
     and_then (lift (py_get found ''results'' (JArr []))) (\<lambda>templates.
       if \<not> truthy templates then returns (Some (Failure not_found))
       else
         and_then (lift (py_first templates)) (\<lambda>template.
         and_then (lift (py_item_id template)) (\<lambda>template_id.
         and_then (requests_call env (launch_request env cfg path template_id hostname))
           (\<lambda>response.
         and_then (lift (raise_for_status response)) (\<lambda>_.
         and_then (lift (json_result response)) (\<lambda>job_data.
         and_then (lift (py_get job_data ''id'' JNull)) (\<lambda>job_id.
           returns (Some (Success job_id job_type hostname))))))))))))"

text \<open>
  \<open>trigger_awx_job\<close>: the result is \<open>None\<close> when neither branch is taken and the
  function falls off its end. The log lines are left out; the headers are the same
  dictionary in both calls.
\<close>

definition trigger_awx_job ::
  "'w env \<Rightarrow> config \<Rightarrow> string \<Rightarrow> 'w net \<Rightarrow> job_result option \<times> 'w net" where
  "trigger_awx_job env cfg hostname st =
     (let attempt =
            (if truthy_opt (AWX_TEMPLATE_NAME cfg)
               then launch_named env cfg hostname ''/api/v2/job_templates/''
                      (fmt_opt (AWX_TEMPLATE_NAME cfg)) ''Template not found'' ''template''
             else if truthy_opt (AWX_WORKFLOW_NAME cfg)
               then launch_named env cfg hostname ''/api/v2/workflow_job_templates/''
                      (fmt_opt (AWX_WORKFLOW_NAME cfg)) ''Workflow not found'' ''workflow''
             else returns None)
      in case attempt st of
           (Inr result, st') \<Rightarrow> (result, st')
         | (Inl (Timeout m), st') \<Rightarrow> (Some (Failure ''AWX API timeout''), st')
         | (Inl (RequestException m), st') \<Rightarrow> (Some (Failure (''AWX API error: '' @ m)), st')
         | (Inl (Exception m), st') \<Rightarrow> (Some (Failure (''Unexpected error: '' @ m)), st'))"

section \<open>The request handler\<close>

text \<open>
  A request to \<open>POST /provision\<close>: the address of the client and the body, which is
  JSON (\<open>request.is_json\<close>, with what \<open>request.get_json()\<close> does) or a form. A response
  is a status code and the value given to \<open>jsonify\<close>.
\<close>

datatype body = Json "exn + json" | Form "(string \<times> string) list"

record provision_request =
  remote_address :: string
  payload :: body

type_synonym http_response = "int \<times> json"

definition extract_hostname :: "body \<Rightarrow> exn + json" where
  "extract_hostname b =
     (case b of
        Json (Inl e) \<Rightarrow> Inl e
      | Json (Inr data) \<Rightarrow> if truthy data then py_get data ''hostname'' JNull else Inr JNull
      | Form form \<Rightarrow>
          Inr (case map_of form ''hostname'' of Some s \<Rightarrow> JStr s | None \<Rightarrow> JNull))"

text \<open>
  \<open>sanitize_hostname\<close> on the extracted value, which is true here: on a value that is
  not a string its first call, \<open>hostname.strip()\<close>, raises \<open>AttributeError\<close>.
\<close>

definition sanitize_value :: "config \<Rightarrow> json \<Rightarrow> exn + string option" where
  "sanitize_value cfg v =
     (case v of
        JStr s \<Rightarrow> Inr (sanitize_hostname cfg (Some s))
      | _ \<Rightarrow> Inl (Exception (quoted (type_name v) @ '' object has no attribute ''
                               @ quoted ''strip'')))"

definition job_response :: "string \<Rightarrow> job_result option \<Rightarrow> exn + http_response" where
  "job_response sanitized_hostname result =
     (case result of
        None \<Rightarrow> Inl (Exception (quoted ''NoneType'' @ '' object is not subscriptable''))
      | Some (Success job_id job_type h) \<Rightarrow>
          Inr (200, JObj [(''success'', JBool True),
                          (''hostname'', JStr sanitized_hostname),
                          (''job_id'', job_id),
                          (''job_type'', JStr job_type),
                          (''message'',
                             JStr (''Job triggered successfully for '' @ sanitized_hostname))])
      | Some (Failure error) \<Rightarrow>
          Inr (500, JObj [(''success'', JBool False),
                          (''hostname'', JStr sanitized_hostname),
                          (''error'', JStr error)]))"

text \<open>
  The \<open>try\<close> block of \<open>provision\<close>, without its log lines; \<open>provision\<close> itself adds
  the handler of every exception.
\<close>

definition provision_body ::
  "'w env \<Rightarrow> config \<Rightarrow> provision_request \<Rightarrow> (http_response, 'w) action" where
  "provision_body env cfg rq =
     and_then (lift (extract_hostname (payload rq))) (\<lambda>hostname.
       if \<not> truthy hostname
       then returns (400, JObj [(''error'', JStr ''hostname parameter is required'')])
       else
         and_then (lift (sanitize_value cfg hostname)) (\<lambda>sanitized_hostname.
           if \<not> truthy_opt sanitized_hostname
           then returns (400, JObj [(''error'', JStr ''Invalid hostname format'')])
           else
             (\<lambda>st. case trigger_awx_job env cfg (fmt_opt sanitized_hostname) st of
                     (result, st') \<Rightarrow>
                       (job_response (fmt_opt sanitized_hostname) result, st'))))"

definition internal_server_error :: http_response where
  "internal_server_error = (500, JObj [(''error'', JStr ''Internal server error'')])"

definition provision ::
  "'w env \<Rightarrow> config \<Rightarrow> provision_request \<Rightarrow> 'w net \<Rightarrow> http_response \<times> 'w net" where
  "provision env cfg rq st =
     (case provision_body env cfg rq st of
        (Inr resp, st') \<Rightarrow> (resp, st')
      | (Inl e, st') \<Rightarrow> (internal_server_error, st'))"

text \<open>The handler of status 429; \<open>retry_after\<close> is the attribute of the error.\<close>

definition ratelimit_handler :: "json \<Rightarrow> http_response" where
  "ratelimit_handler retry_after =
     (429, JObj [(''error'', JStr ''Rate limit exceeded''),
                 (''message'', JStr ''Too many requests. Please try again later.''),
                 (''retry_after'', retry_after)])"

section \<open>The rate limiter\<close>

text \<open>
  The limits are checked by the decorators \<open>limiter.limit\<close> of the route; the limiter
  itself is the extension the application imports, and its code is not among the
  sources. Time is the number of seconds since some origin.
\<close>

text \<open>
  Modelled from the spec: the keys of the missing limiter, the source address of a client
  for the per-client quota and one shared key for the global quota.
\<close>

datatype limit_key = Client string | Shared

text \<open>
  Modelled from the spec: the counter store of the missing limiter, a count for each key
  and each window.
\<close>

type_synonym counters = "limit_key \<Rightarrow> nat \<Rightarrow> nat"

text \<open>
  Modelled from the spec: the window of the missing limiter. Fixed-window counting: a
  request at time \<open>now\<close> falls in the window with index \<open>now div per_seconds\<close>.
\<close>

definition window_of :: "rate_limit \<Rightarrow> nat \<Rightarrow> nat" where
  "window_of lim now = now div per_seconds lim"

text \<open>
  Modelled from the spec: the capacity test of the missing limiter. \<open>cs k w\<close> counts the
  units consumed under key \<open>k\<close> in window \<open>w\<close>; a quota has remaining capacity while the
  count of the current window is below its amount.
\<close>

definition has_capacity :: "rate_limit \<Rightarrow> counters \<Rightarrow> limit_key \<Rightarrow> nat \<Rightarrow> bool" where
  "has_capacity lim cs k now = (cs k (window_of lim now) < amount lim)"

text \<open>
  Modelled from the spec: consuming one unit of a quota in the missing limiter.
\<close>

definition consume :: "rate_limit \<Rightarrow> counters \<Rightarrow> limit_key \<Rightarrow> nat \<Rightarrow> counters" where
  "consume lim cs k now =
     cs(k := (cs k)(window_of lim now := Suc (cs k (window_of lim now))))"

text \<open>
  Modelled from the spec: the decision of the missing limiter. A request is admitted
  only if both the quota of its client and the global quota have remaining capacity;
  admitting consumes one unit from both, rejecting consumes nothing.
\<close>

definition limiter_step :: "config \<Rightarrow> counters \<Rightarrow> nat \<times> string \<Rightarrow> bool \<times> counters" where
  "limiter_step cfg cs r =
     (if has_capacity (PER_IP_RATE_LIMIT cfg) cs (Client (snd r)) (fst r)
         \<and> has_capacity (GLOBAL_RATE_LIMIT cfg) cs Shared (fst r)
      then (True,
            consume (GLOBAL_RATE_LIMIT cfg)
              (consume (PER_IP_RATE_LIMIT cfg) cs (Client (snd r)) (fst r)) Shared (fst r))
      else (False, cs))"

text \<open>
  Modelled from the spec: the missing limiter on a sequence of requests, each a time and
  a client address: the decisions in order and the counters at the end.
\<close>

fun limiter_run :: "config \<Rightarrow> counters \<Rightarrow> (nat \<times> string) list \<Rightarrow> bool list \<times> counters" where
  "limiter_run cfg cs [] = ([], cs)"
| "limiter_run cfg cs (r # rs) =
     (case limiter_step cfg cs r of
        (ok, cs') \<Rightarrow> (case limiter_run cfg cs' rs of (oks, cs'') \<Rightarrow> (ok # oks, cs'')))"

text \<open>
  The route \<open>POST /provision\<close> at time \<open>now\<close>: the limits wrap \<open>provision\<close>, so they are
  checked first; a rejected request is answered by \<open>ratelimit_handler\<close> and \<open>provision\<close>
  does not run. \<open>hint\<close> is the \<open>retry_after\<close> attribute of the error.
\<close>

definition post_provision ::
  "'w env \<Rightarrow> config \<Rightarrow> json \<Rightarrow> nat \<Rightarrow> provision_request \<Rightarrow> counters \<times> 'w net
     \<Rightarrow> http_response \<times> counters \<times> 'w net" where
  "post_provision env cfg hint now rq state =
     (case limiter_step cfg (fst state) (now, remote_address rq) of
        (True, cs') \<Rightarrow>
          (case provision env cfg rq (snd state) of (resp, st') \<Rightarrow> (resp, cs', st'))
      | (False, cs') \<Rightarrow> (ratelimit_handler hint, cs', snd state))"

text \<open>
  Modelled from the spec: the limiter keeps its counters from one request to the next.
  Successive requests to the route, each with its time of arrival, are served in order:
  every request meets the counters and the controller as the one before it left them.
  The result is the responses in order and the state at the end.
\<close>

fun serve ::
  "'w env \<Rightarrow> config \<Rightarrow> json \<Rightarrow> (nat \<times> provision_request) list \<Rightarrow> counters \<times> 'w net
     \<Rightarrow> http_response list \<times> counters \<times> 'w net" where
  "serve env cfg hint [] state = ([], state)"
| "serve env cfg hint (tr # trs) state =
     (case post_provision env cfg hint (fst tr) (snd tr) state of
        (resp, state') \<Rightarrow>
          (case serve env cfg hint trs state' of
             (resps, state'') \<Rightarrow> (resp # resps, state'')))"

section \<open>Notions used in the statements\<close>

text \<open>A character of \<open>[a-z0-9.-]\<close>.\<close>

definition hostname_char :: "char \<Rightarrow> bool" where
  "hostname_char c =
     (in_range c (CHR ''a'', CHR ''z'') \<or> in_range c (CHR ''0'', CHR ''9'')
      \<or> c = CHR ''.'' \<or> c = CHR ''-'')"

text \<open>A string with no white space at either end.\<close>

definition trimmed :: "string \<Rightarrow> bool" where
  "trimmed s = (s = [] \<or> (\<not> py_isspace (hd s) \<and> \<not> py_isspace (last s)))"

text \<open>
  The hostname grammar in the words of the specification, to compare with the pattern of
  the code: one or more labels separated by dots; each label is alphanumeric, may
  contain hyphens inside, starts and ends with an alphanumeric character and has at most
  63 characters. \<open>split_dots\<close> is \<open>str.split('.')\<close>.
\<close>

definition is_alnum :: "char \<Rightarrow> bool" where
  "is_alnum c =
     (in_range c (CHR ''a'', CHR ''z'') \<or> in_range c (CHR ''A'', CHR ''Z'')
      \<or> in_range c (CHR ''0'', CHR ''9''))"

definition valid_label :: "string \<Rightarrow> bool" where
  "valid_label l =
     (l \<noteq> [] \<and> length l \<le> 63 \<and> is_alnum (hd l) \<and> is_alnum (last l)
      \<and> list_all (\<lambda>c. is_alnum c \<or> c = CHR ''-'') l)"

fun split_dots :: "string \<Rightarrow> string list" where
  "split_dots [] = [[]]"
| "split_dots (c # cs) =
     (if c = CHR ''.'' then [] # split_dots cs
      else (case split_dots cs of [] \<Rightarrow> [[c]] | l # ls \<Rightarrow> (c # l) # ls))"

definition rfc1123_hostname :: "string \<Rightarrow> bool" where
  "rfc1123_hostname h = list_all valid_label (split_dots h)"

text \<open>A string without two dots in a row.\<close>

definition no_double_dot :: "string \<Rightarrow> bool" where
  "no_double_dot s = (\<forall>i. Suc i < length s \<longrightarrow> \<not> (s ! i = CHR ''.'' \<and> s ! Suc i = CHR ''.''))"

text \<open>The strings of a JSON value, and whether one of them contains a given text.\<close>

fun json_strings :: "json \<Rightarrow> string list" where
  "json_strings JNull = []"
| "json_strings (JBool b) = []"
| "json_strings (JNum n) = []"
| "json_strings (JStr s) = [s]"
| "json_strings (JArr xs) = concat (map json_strings xs)"
| "json_strings (JObj kvs) = concat (map (\<lambda>kv. fst kv # json_strings (snd kv)) kvs)"

definition exposes :: "json \<Rightarrow> string \<Rightarrow> bool" where
  "exposes j detail = list_ex (sublist detail) (json_strings j)"

text \<open>
  The number of the requests of a sequence that were admitted, came from a given client
  and fell in a given window of the per-client limit; and the same for the global limit.
\<close>

definition admitted_client ::
  "config \<Rightarrow> (nat \<times> string) list \<Rightarrow> bool list \<Rightarrow> string \<Rightarrow> nat \<Rightarrow> nat" where
  "admitted_client cfg rs oks ip w =
     length (filter (\<lambda>(r, ok). ok \<and> snd r = ip \<and> window_of (PER_IP_RATE_LIMIT cfg) (fst r) = w)
               (zip rs oks))"

definition admitted_global ::
  "config \<Rightarrow> (nat \<times> string) list \<Rightarrow> bool list \<Rightarrow> nat \<Rightarrow> nat" where
  "admitted_global cfg rs oks w =
     length (filter (\<lambda>(r, ok). ok \<and> window_of (GLOBAL_RATE_LIMIT cfg) (fst r) = w)
               (zip rs oks))"

text \<open>
  What the limiter sees of a sequence of requests to the route: the time and the source
  address of each.
\<close>

definition arrivals :: "(nat \<times> provision_request) list \<Rightarrow> (nat \<times> string) list" where
  "arrivals trs = map (\<lambda>tr. (fst tr, remote_address (snd tr))) trs"

text \<open>
  What a client sees of the decisions: a request passed the limits when its response does
  not have status 429.
\<close>

definition passed :: "http_response list \<Rightarrow> bool list" where
  "passed resps = map (\<lambda>resp. fst resp \<noteq> 429) resps"

text \<open>Counters on which no quota is exceeded.\<close>

definition within_limits :: "config \<Rightarrow> counters \<Rightarrow> bool" where
  "within_limits cfg cs =
     ((\<forall>ip w. cs (Client ip) w \<le> amount (PER_IP_RATE_LIMIT cfg))
      \<and> (\<forall>w. cs Shared w \<le> amount (GLOBAL_RATE_LIMIT cfg)))"

definition no_counts :: counters where
  "no_counts = (\<lambda>k w. 0)"

text \<open>
  The four strings of the branch of \<open>trigger_awx_job\<close> that the configuration selects:
  the path of the collection, the name looked up, the message when it is not found and
  the job type; \<open>None\<close> when neither name is configured.
\<close>

definition configured_kind :: "config \<Rightarrow> (string \<times> string \<times> string \<times> string) option" where
  "configured_kind cfg =
     (if truthy_opt (AWX_TEMPLATE_NAME cfg)
        then Some (''/api/v2/job_templates/'', fmt_opt (AWX_TEMPLATE_NAME cfg),
                   ''Template not found'', ''template'')
      else if truthy_opt (AWX_WORKFLOW_NAME cfg)
        then Some (''/api/v2/workflow_job_templates/'', fmt_opt (AWX_WORKFLOW_NAME cfg),
                   ''Workflow not found'', ''workflow'')
      else None)"

text \<open>The error message that the \<open>except\<close> clauses of \<open>trigger_awx_job\<close> give an exception.\<close>

fun failure_text :: "exn \<Rightarrow> string" where
  "failure_text (Timeout m) = ''AWX API timeout''"
| "failure_text (RequestException m) = ''AWX API error: '' @ m"
| "failure_text (Exception m) = ''Unexpected error: '' @ m"

text \<open>
  The exception, if any, of one outbound call followed by \<open>raise_for_status\<close>.
\<close>

definition call_failure :: "exn + response \<Rightarrow> exn option" where
  "call_failure out =
     (case out of
        Inl e \<Rightarrow> Some e
      | Inr r \<Rightarrow> (case raise_for_status r of Inl e \<Rightarrow> Some e | Inr u \<Rightarrow> None))"

text \<open>
  The id that the lookup step takes from a decoded body: the \<open>id\<close> of the first of its
  \<open>results\<close>.
\<close>

definition resolved_id :: "json \<Rightarrow> exn + json option" where
  "resolved_id found =
     (case py_get found ''results'' (JArr []) of
        Inl e \<Rightarrow> Inl e
      | Inr templates \<Rightarrow>
          if \<not> truthy templates then Inr None
          else (case py_first templates of
                  Inl e \<Rightarrow> Inl e
                | Inr template \<Rightarrow>
                    (case py_item_id template of Inl e \<Rightarrow> Inl e | Inr i \<Rightarrow> Inr (Some i))))"

subsection \<open>Example controllers\<close>

text \<open>
  \<open>str\<close> on the scalar values that the examples use as ids (containers are not
  printed), and a controller that answers the calls from a script, one entry per call.
\<close>

fun example_str :: "json \<Rightarrow> string" where
  "example_str JNull = ''None''"
| "example_str (JBool b) = (if b then ''True'' else ''False'')"
| "example_str (JNum n) = str_int n"
| "example_str (JStr s) = s"
| "example_str j = []"

definition scripted :: "(exn + response) list env" where
  "scripted =
     \<lparr> send = (\<lambda>rq w. case w of
                        [] \<Rightarrow> (Inl (RequestException ''Connection refused''), [])
                      | r # rest \<Rightarrow> (r, rest)),
       py_str = example_str \<rparr>"

definition answer :: "int \<Rightarrow> string \<Rightarrow> json \<Rightarrow> exn + response" where
  "answer status phrase j =
     Inr \<lparr> status_code = status, reason = phrase,
           response_url = ''https://test.example.com/api/v2/'', json_result = Inr j \<rparr>"

definition json_request :: "string \<Rightarrow> provision_request" where
  "json_request h =
     \<lparr> remote_address = ''192.0.2.1'', payload = Json (Inr (JObj [(''hostname'', JStr h)])) \<rparr>"

section \<open>Properties of the sanitizer\<close>

subsection \<open>Characters, lowering and trimming\<close>

lemma code_char_of: "code (char_of (n::nat)) = n mod 256"
  by (simp add: code_def)

lemma code_inj: "code c = code d \<Longrightarrow> c = d"
  by (simp add: code_def)

lemma not_upper_lower_char: "\<not> py_isupper (py_lower_char c)"
  by (auto simp: py_lower_char_def py_isupper_def code_char_of)

lemma lower_char_idem: "py_lower_char (py_lower_char c) = py_lower_char c"
  using not_upper_lower_char [of c] by (simp add: py_lower_char_def [of "py_lower_char c"])

lemma py_lower_idem: "py_lower (py_lower s) = py_lower s"
  by (simp add: py_lower_def lower_char_idem)

lemma isspace_lower_char: "py_isspace (py_lower_char c) = py_isspace c"
  by (auto simp: py_lower_char_def py_isupper_def py_isspace_def code_char_of)

lemma length_py_lower: "length (py_lower s) = length s"
  by (simp add: py_lower_def)

lemma strip_lower: "py_strip (py_lower s) = py_lower (py_strip s)"
  by (simp add: py_strip_def py_lower_def dropWhile_map rev_map comp_def isspace_lower_char)

lemma dropWhile_hd_id: "xs = [] \<or> \<not> P (hd xs) \<Longrightarrow> dropWhile P xs = xs"
  by (cases xs) auto

lemma strip_trimmed: "trimmed s \<Longrightarrow> py_strip s = s"
proof -
  assume t: "trimmed s"
  then have 1: "dropWhile py_isspace s = s"
    by (intro dropWhile_hd_id) (auto simp: trimmed_def)
  from t have 2: "dropWhile py_isspace (rev s) = rev s"
    by (intro dropWhile_hd_id) (auto simp: trimmed_def hd_rev)
  show ?thesis by (simp add: py_strip_def 1 2)
qed

lemma trimmed_strip: "trimmed (py_strip s)"
proof (cases "py_strip s = []")
  case True
  then show ?thesis by (simp add: trimmed_def)
next
  case False
  define t where "t = dropWhile py_isspace s"
  define u where "u = rev (dropWhile py_isspace (rev t))"
  have u: "py_strip s = u" by (simp add: py_strip_def u_def t_def)
  with False have ne: "u \<noteq> []" by simp
  have split: "t = u @ rev (takeWhile py_isspace (rev t))"
    unfolding u_def by (metis rev_append rev_rev_ident takeWhile_dropWhile_id)
  with ne have "t \<noteq> []" by auto
  then have "\<not> py_isspace (hd t)" unfolding t_def by (rule hd_dropWhile)
  moreover from split ne have "hd t = hd u" by (metis hd_append2)
  moreover have "\<not> py_isspace (last u)"
    using ne unfolding u_def by (simp add: last_rev hd_dropWhile)
  ultimately show ?thesis by (simp add: trimmed_def u)
qed

lemma py_strip_idem: "py_strip (py_strip s) = py_strip s"
  by (rule strip_trimmed [OF trimmed_strip])

lemma normal_form_fixed: "py_lower (py_strip (py_lower (py_strip s))) = py_lower (py_strip s)"
  by (simp add: strip_lower py_strip_idem py_lower_idem)

subsection \<open>The patterns\<close>

lemma in_range_single: "in_range c (d, d) = (c = d)"
  by (auto simp: in_range_def dest: code_inj)

lemma invalid_char_class:
  "in_cset c (NotIn (alnum @ [(CHR ''.'', CHR ''.''), (CHR ''-'', CHR ''-'')]))
     = (\<not> (hostname_char c \<or> in_range c (CHR ''A'', CHR ''Z'')))"
  by (auto simp: alnum_def hostname_char_def in_range_single)

lemma upper_range: "in_range c (CHR ''A'', CHR ''Z'') \<Longrightarrow> py_isupper c"
  by (simp add: in_range_def py_isupper_def code_def)

lemma search_class: "re_search (Cls cs) s = (\<exists>c\<in>set s. in_cset c cs)"
proof -
  have "re_search (Cls cs) s = (\<exists>i<length s. in_cset (s ! i) cs)"
    by (auto simp: re_search_def filter_empty_conv less_Suc_eq)
  also have "\<dots> = (\<exists>c\<in>set s. in_cset c cs)"
    by (metis in_set_conv_nth)
  finally show ?thesis .
qed

lemma no_match_empty: "\<not> re_match hostname_pattern []"
  by (simp add: re_match_def hostname_pattern_def label_pattern_def)

lemma sanitize_Some_iff:
  "sanitize_hostname cfg (Some s) = Some h \<longleftrightarrow>
     s \<noteq> [] \<and> h = py_lower (py_strip s)
     \<and> MIN_HOSTNAME_LENGTH cfg \<le> int (length h) \<and> int (length h) \<le> MAX_HOSTNAME_LENGTH cfg
     \<and> re_match hostname_pattern h
     \<and> \<not> list_ex (\<lambda>pattern. re_search pattern h) suspicious_patterns"
  by (auto simp: sanitize_hostname_def Let_def)

lemma sanitize_Some_nonempty: "sanitize_hostname cfg (Some s) = Some h \<Longrightarrow> s \<noteq> [] \<and> h \<noteq> []"
  using no_match_empty by (auto simp: sanitize_Some_iff)

lemma sanitize_Some_fixed:
  assumes "sanitize_hostname cfg (Some s) = Some h"
  shows "sanitize_hostname cfg (Some h) = Some h"
proof -
  from assms have "h \<noteq> []" by (simp add: sanitize_Some_nonempty)
  moreover from assms have "py_lower (py_strip h) = h"
    by (simp add: sanitize_Some_iff normal_form_fixed)
  ultimately show ?thesis
    using assms unfolding sanitize_Some_iff by metis
qed

subsection \<open>Running a pattern\<close>

lemma upto_times_start: "set ps \<subseteq> set (upto_times n f ps)"
  by (cases n) auto

lemma upto_times_mono:
  assumes "\<And>ps qs. set ps \<subseteq> set qs \<Longrightarrow> set (f ps) \<subseteq> set (f qs)"
  shows "set ps \<subseteq> set qs \<Longrightarrow> set (upto_times n f ps) \<subseteq> set (upto_times n f qs)"
proof (induction n arbitrary: ps qs)
  case 0
  then show ?case by simp
next
  case (Suc n)
  from Suc.IH [OF assms [OF Suc.prems]] Suc.prems show ?case by auto
qed

lemma upto_times_more: "set (upto_times n f ps) \<subseteq> set (upto_times (Suc n) f ps)"
proof (induction n arbitrary: ps)
  case 0
  then show ?case by simp
next
  case (Suc n)
  from Suc [of "f ps"] show ?case by auto
qed

lemma upto_times_le: "n \<le> m \<Longrightarrow> set (upto_times n f ps) \<subseteq> set (upto_times m f ps)"
proof (induction m)
  case 0
  then show ?case by simp
next
  case (Suc m)
  show ?case
  proof (cases "n = Suc m")
    case True
    then show ?thesis by simp
  next
    case False
    with Suc have "set (upto_times n f ps) \<subseteq> set (upto_times m f ps)" by simp
    with upto_times_more [of m f ps] show ?thesis by blast
  qed
qed

lemma run_mono: "set ps \<subseteq> set qs \<Longrightarrow> set (run r s ps) \<subseteq> set (run r s qs)"
proof (induction r arbitrary: ps qs)
  case (Seq a b)
  then show ?case by simp
next
  case (Opt a)
  from Opt.IH [OF Opt.prems] Opt.prems show ?case by auto
next
  case (Star a)
  from upto_times_mono [of "run a s", OF Star.IH Star.prems] show ?case by simp
next
  case (Plus a)
  from upto_times_mono [of "run a s", OF Plus.IH Plus.IH [OF Plus.prems]] show ?case by simp
next
  case (Upto a n)
  from upto_times_mono [of "run a s", OF Upto.IH Upto.prems] show ?case by simp
qed auto

lemma upto_run_mono:
  "set ps \<subseteq> set qs \<Longrightarrow> set (upto_times n (run r s) ps) \<subseteq> set (upto_times n (run r s) qs)"
  by (rule upto_times_mono) (rule run_mono)

lemma run_member_mono: "i \<in> set ps \<Longrightarrow> j \<in> set (run r s [i]) \<Longrightarrow> j \<in> set (run r s ps)"
  using run_mono [of "[i]" ps r s] by auto

lemma run_cls_member:
  "i \<in> set ps \<Longrightarrow> i < length s \<Longrightarrow> in_cset (s ! i) cs \<Longrightarrow> Suc i \<in> set (run (Cls cs) s ps)"
  by auto

lemma upto_times_next:
  "f ps = qs \<Longrightarrow> x \<in> set (upto_times n f qs) \<Longrightarrow> x \<in> set (upto_times (Suc n) f ps)"
  by simp

lemma cls_chain:
  "k \<le> n \<Longrightarrow> (\<forall>m<k. p + m < length s \<and> in_cset (s ! (p + m)) cs) \<Longrightarrow>
     p + k \<in> set (upto_times n (run (Cls cs) s) [p])"
proof (induction n arbitrary: p k)
  case 0
  then show ?case by simp
next
  case (Suc n)
  show ?case
  proof (cases k)
    case 0
    then show ?thesis by simp
  next
    case (Suc k')
    with Suc.prems have here: "p < length s \<and> in_cset (s ! p) cs" by force
    from Suc Suc.prems have rest: "\<forall>m<k'. Suc p + m < length s \<and> in_cset (s ! (Suc p + m)) cs"
      by (metis Suc_less_eq add_Suc_shift)
    from Suc Suc.prems(1) have "k' \<le> n" by simp
    then have "Suc p + k' \<in> set (upto_times n (run (Cls cs) s) [Suc p])"
      using rest by (rule Suc.IH)
    moreover from here have "run (Cls cs) s [p] = [Suc p]" by simp
    ultimately have "Suc p + k' \<in> set (upto_times (Suc n) (run (Cls cs) s) [p])"
      by (rule upto_times_next [rotated])
    with Suc show ?thesis by (simp del: upto_times.simps run.simps)
  qed
qed


lemma in_alnum: "list_ex (in_range c) alnum = is_alnum c"
  by (auto simp: alnum_def is_alnum_def)

lemma in_alnum_hyphen: "list_ex (in_range c) alnum_hyphen = (is_alnum c \<or> c = CHR ''-'')"
  by (auto simp: alnum_hyphen_def alnum_def is_alnum_def in_range_single)

lemma in_dot: "in_cset c (In [(CHR ''.'', CHR ''.'')]) = (c = CHR ''.'')"
  by (simp add: in_range_single)

lemma label_run:
  "run label_pattern s ps
     = run (Cls (In alnum)) s
         (upto_times 61 (run (Cls (In alnum_hyphen)) s) (run (Cls (In alnum)) s ps))
       @ run (Cls (In alnum)) s ps"
  by (simp add: label_pattern_def)

lemma nth_middle_part: "j < length l \<Longrightarrow> (pre @ l @ post) ! (length pre + j) = l ! j"
  by (simp add: nth_append)

lemma label_step:
  assumes s: "s = pre @ l @ post" and v: "valid_label l"
  shows "length pre + length l \<in> set (run label_pattern s [length pre])"
proof -
  let ?p = "length pre"
  from v have ne: "l \<noteq> []" and len: "length l \<le> 63"
    and first: "is_alnum (l ! 0)" and last: "is_alnum (l ! (length l - 1))"
    and all: "\<forall>c\<in>set l. is_alnum c \<or> c = CHR ''-''"
    by (auto simp: valid_label_def hd_conv_nth last_conv_nth list_all_iff)
  from ne have pos: "0 < length l" by simp
  have at: "s ! (?p + j) = l ! j" if "j < length l" for j
    unfolding s using that by (rule nth_middle_part)
  have inside: "?p + j < length s" if "j < length l" for j
    using that by (simp add: s)
  from at [OF pos] inside [OF pos] first
  have a: "run (Cls (In alnum)) s [?p] = [Suc ?p]"
    by (simp add: in_alnum)
  show ?thesis
  proof (cases "length l = 1")
    case True
    with a show ?thesis by (simp add: label_run del: run.simps)
  next
    case False
    from pos False have two: "2 \<le> length l" by linarith
    define k where "k = length l - 2"
    have k: "k \<le> 61" "Suc (Suc k) = length l" using two len by (auto simp: k_def)
    have "\<forall>m<k. Suc ?p + m < length s \<and> in_cset (s ! (Suc ?p + m)) (In alnum_hyphen)"
    proof (intro allI impI)
      fix m assume "m < k"
      with k have m: "Suc m < length l" by simp
      from at [OF m] inside [OF m] all m
      show "Suc ?p + m < length s \<and> in_cset (s ! (Suc ?p + m)) (In alnum_hyphen)"
        by (simp add: in_alnum_hyphen)
    qed
    from cls_chain [OF k(1) this]
    have mid: "Suc ?p + k \<in> set (upto_times 61 (run (Cls (In alnum_hyphen)) s) [Suc ?p])" .
    from k have idx: "Suc ?p + k = ?p + (length l - 1)" "length l - 1 < length l" by auto
    have "Suc ?p + k < length s \<and> in_cset (s ! (Suc ?p + k)) (In alnum)"
      unfolding idx(1) using at [OF idx(2)] inside [OF idx(2)] last
      by (simp add: in_alnum)
    with mid have "Suc (Suc ?p + k)
        \<in> set (run (Cls (In alnum)) s (upto_times 61 (run (Cls (In alnum_hyphen)) s) [Suc ?p]))"
      by (intro run_cls_member) auto
    moreover from k have "Suc (Suc ?p + k) = ?p + length l" by simp
    ultimately have "?p + length l
        \<in> set (run (Cls (In alnum)) s (upto_times 61 (run (Cls (In alnum_hyphen)) s) [Suc ?p]))"
      by (simp only:)
    then show ?thesis
      by (simp add: label_run a del: run.simps)
  qed
qed

lemma dot_label_step:
  assumes s: "s = pre @ CHR ''.'' # l @ post" and v: "valid_label l"
  shows "Suc (length pre + length l) \<in> set (run (Seq dot label_pattern) s [length pre])"
proof -
  have "run dot s [length pre] = [Suc (length pre)]"
    by (simp add: dot_def s in_range_single)
  moreover from s have "s = (pre @ ''.'') @ l @ post" by simp
  from label_step [OF this v]
  have "Suc (length pre + length l) \<in> set (run label_pattern s [Suc (length pre)])" by simp
  ultimately show ?thesis by (simp del: run.simps add: run.simps(4))
qed


lemma split_dots_join:
  "\<exists>l ls. split_dots h = l # ls \<and> h = l @ concat (map ((#) CHR ''.'') ls)"
  by (induction h) (auto split: list.splits)

lemma length_dotted: "length ls \<le> length (concat (map ((#) c) ls))"
  by (induction ls) auto

lemma star_chain:
  assumes "list_all valid_label ls"
    and "s = pre @ concat (map ((#) CHR ''.'') ls)"
    and "length ls \<le> n"
  shows "length s \<in> set (upto_times n (run (Seq dot label_pattern) s) [length pre])"
  using assms
proof (induction ls arbitrary: pre n)
  case Nil
  then have "length s \<in> set [length pre]" by simp
  with upto_times_start show ?case by blast
next
  case (Cons l ls)
  let ?f = "run (Seq dot label_pattern) s"
  let ?pre = "pre @ CHR ''.'' # l"
  from Cons.prems(3) obtain n' where n: "n = Suc n'" "length ls \<le> n'" by (cases n) auto
  from Cons.prems(1) have v: "valid_label l" and vs: "list_all valid_label ls" by auto
  from Cons.prems(2) have s1: "s = pre @ CHR ''.'' # l @ concat (map ((#) CHR ''.'') ls)"
    and s2: "s = ?pre @ concat (map ((#) CHR ''.'') ls)"
    by auto
  from dot_label_step [OF s1 v] have "length ?pre \<in> set (?f [length pre])" by simp
  then have "set [length ?pre] \<subseteq> set (?f [length pre])" by simp
  then have "set (upto_times n' ?f [length ?pre]) \<subseteq> set (upto_times n' ?f (?f [length pre]))"
    by (rule upto_run_mono)
  with Cons.IH [OF vs s2 n(2)] have "length s \<in> set (upto_times n' ?f (?f [length pre]))"
    by blast
  then have "length s \<in> set (upto_times (Suc n') ?f [length pre])"
    by (rule upto_times_next [OF refl])
  with n(1) show ?case by (simp only:)
qed

lemma hostname_run:
  "run hostname_pattern s [0]
     = filter (at_eol s)
         (upto_times (length s) (run (Seq dot label_pattern) s) (run label_pattern s [0]))"
  by (simp add: hostname_pattern_def)

lemma valid_hostname_matches:
  assumes "rfc1123_hostname h"
  shows "re_match hostname_pattern h"
proof -
  from split_dots_join [of h] obtain l ls
    where sp: "split_dots h = l # ls" and h: "h = l @ concat (map ((#) CHR ''.'') ls)"
    by blast
  let ?f = "run (Seq dot label_pattern) h"
  from assms sp have v: "valid_label l" and vs: "list_all valid_label ls"
    by (auto simp: rfc1123_hostname_def)
  from h have "h = [] @ l @ concat (map ((#) CHR ''.'') ls)" by simp
  from label_step [OF this v] have "length l \<in> set (run label_pattern h [0])" by simp
  then have "set [length l] \<subseteq> set (run label_pattern h [0])" by simp
  then have "set (upto_times (length h) ?f [length l])
               \<subseteq> set (upto_times (length h) ?f (run label_pattern h [0]))"
    by (rule upto_run_mono)
  moreover have "length ls \<le> length h" using length_dotted [of ls "CHR ''.''"] h by simp
  from star_chain [OF vs h this] have "length h \<in> set (upto_times (length h) ?f [length l])" .
  ultimately have "length h \<in> set (upto_times (length h) ?f (run label_pattern h [0]))"
    by blast
  then have "length h \<in> set (run hostname_pattern h [0])"
    by (simp add: hostname_run at_eol_def del: run.simps)
  then show ?thesis by (auto simp: re_match_def simp del: run.simps)
qed

lemma upto_times_Nil: "f [] = [] \<Longrightarrow> upto_times n f [] = []"
  by (induction n) auto

lemma run_Nil: "run r s [] = []"
  by (induction r) (auto simp: upto_times_Nil)

lemma upto_times_nonempty: "upto_times n (run r s) ps \<noteq> [] \<Longrightarrow> ps \<noteq> []"
  using upto_times_Nil [of "run r s" n, OF run_Nil] by auto

lemma run_cls_set:
  "set (run (Cls cs) s ps) = {Suc i | i. i \<in> set ps \<and> i < length s \<and> in_cset (s ! i) cs}"
  by auto


lemma run_cls_nonempty:
  "run (Cls cs) s ps \<noteq> [] \<Longrightarrow> \<exists>i\<in>set ps. i < length s \<and> in_cset (s ! i) cs"
  by (auto simp: filter_empty_conv)

lemma double_dot_found:
  assumes "re_search (Seq dot (Plus dot)) s"
  shows "\<not> no_double_dot s"
proof -
  let ?ps = "[0..<Suc (length s)]"
  from assms have "upto_times (length s) (run dot s) (run dot s (run dot s ?ps)) \<noteq> []"
    unfolding re_search_def run.simps .
  then have "run dot s (run dot s ?ps) \<noteq> []" by (rule upto_times_nonempty)
  then obtain j where j: "j \<in> set (run dot s ?ps)" "j < length s" "s ! j = CHR ''.''"
    unfolding dot_def using run_cls_nonempty in_dot by blast
  from j(1) obtain i where "j = Suc i" "s ! i = CHR ''.''"
    unfolding dot_def run_cls_set using in_dot by blast
  with j show ?thesis unfolding no_double_dot_def by blast
qed

lemma leading_hyphen_found:
  assumes "re_search (Seq Bol (Cls (In [(CHR ''-'', CHR ''-'')]))) s"
  shows "s \<noteq> [] \<and> hd s = CHR ''-''"
proof -
  let ?ps = "[0..<Suc (length s)]"
  from assms have "run (Cls (In [(CHR ''-'', CHR ''-'')])) s (filter (\<lambda>i. i = 0) ?ps) \<noteq> []"
    unfolding re_search_def run.simps .
  from run_cls_nonempty [OF this]
  have "0 < length s \<and> in_cset (s ! 0) (In [(CHR ''-'', CHR ''-'')])"
    by (auto simp del: upt_Suc in_cset.simps)
  then show ?thesis by (simp add: in_range_single hd_conv_nth)
qed

lemma trailing_hyphen_found:
  assumes "re_search (Seq (Cls (In [(CHR ''-'', CHR ''-'')])) Eol) s"
  shows "s \<noteq> [] \<and> (last s = CHR ''-'' \<or> CHR 0x0A \<in> set s)"
proof -
  let ?ps = "[0..<Suc (length s)]"
  from assms have "filter (at_eol s) (run (Cls (In [(CHR ''-'', CHR ''-'')])) s ?ps) \<noteq> []"
    unfolding re_search_def run.simps .
  then obtain j where "j \<in> set (run (Cls (In [(CHR ''-'', CHR ''-'')])) s ?ps)" "at_eol s j"
    unfolding filter_empty_conv by blast
  then obtain i where i: "i < length s" "s ! i = CHR ''-''" "at_eol s (Suc i)"
    unfolding run_cls_set using in_range_single by auto
  then have ne: "s \<noteq> []" by auto
  from i(3) consider "Suc i = length s" | "Suc (Suc i) = length s" "s ! Suc i = CHR 0x0A"
    unfolding at_eol_def by blast
  then have "last s = CHR ''-'' \<or> CHR 0x0A \<in> set s"
  proof cases
    case 1
    then have "length s - 1 = i" by simp
    with i(2) last_conv_nth [OF ne] have "last s = CHR ''-''" by metis
    then show ?thesis ..
  next
    case 2
    then have "Suc i < length s" by simp
    with 2(2) have "CHR 0x0A \<in> set s" by (metis nth_mem)
    then show ?thesis ..
  qed
  with ne show ?thesis by blast
qed

subsection \<open>Valid hostnames are accepted\<close>

lemma alnum_not_special:
  "is_alnum c \<Longrightarrow> c \<noteq> CHR ''.'' \<and> c \<noteq> CHR ''-'' \<and> c \<noteq> CHR 0x0A"
  by (auto simp: is_alnum_def in_range_def code_def)

lemma no_double_dot_append:
  assumes "no_double_dot xs" and "no_double_dot ys"
    and "xs = [] \<or> ys = [] \<or> last xs \<noteq> CHR ''.'' \<or> hd ys \<noteq> CHR ''.''"
  shows "no_double_dot (xs @ ys)"
  unfolding no_double_dot_def
proof (intro allI impI notI)
  fix i
  assume i: "Suc i < length (xs @ ys)"
    and d: "(xs @ ys) ! i = CHR ''.'' \<and> (xs @ ys) ! Suc i = CHR ''.''"
  consider "Suc i < length xs" | "Suc i = length xs" | "length xs \<le> i" by linarith
  then show False
  proof cases
    case 1
    with d assms(1) show False by (auto simp: no_double_dot_def nth_append)
  next
    case 2
    then have xs: "xs \<noteq> []" and "length xs - 1 = i" by auto
    with last_conv_nth [OF xs] have l: "last xs = xs ! i" by simp
    from 2 i have ys: "ys \<noteq> []" by auto
    from 2 d have "xs ! i = CHR ''.''" "ys ! 0 = CHR ''.''" by (auto simp: nth_append)
    with xs ys l assms(3) show False by (simp add: hd_conv_nth)
  next
    case 3
    then have "Suc i - length xs = Suc (i - length xs)" by simp
    with 3 i d assms(2) show False
      by (auto simp: no_double_dot_def nth_append dest!: spec [of _ "i - length xs"])
  qed
qed

lemma no_dot_no_double: "CHR ''.'' \<notin> set xs \<Longrightarrow> no_double_dot xs"
  by (auto simp: no_double_dot_def dest: nth_mem)

lemma valid_label_chars:
  assumes "valid_label l"
  shows "l \<noteq> []" "is_alnum (hd l)" "is_alnum (last l)"
    "\<forall>c\<in>set l. is_alnum c \<or> c = CHR ''-''" "CHR ''.'' \<notin> set l"
  using assms alnum_not_special by (auto simp: valid_label_def list_all_iff)

lemma dotted_chars:
  "list_all valid_label ls \<Longrightarrow>
     \<forall>c\<in>set (concat (map ((#) CHR ''.'') ls)). is_alnum c \<or> c = CHR ''-'' \<or> c = CHR ''.''"
  by (induction ls) (auto dest: valid_label_chars(4))

lemma dotted_last:
  "list_all valid_label ls \<Longrightarrow> ls \<noteq> [] \<Longrightarrow> is_alnum (last (concat (map ((#) CHR ''.'') ls)))"
proof (induction ls)
  case Nil
  then show ?case by simp
next
  case (Cons l ls)
  then have v: "valid_label l" by simp
  show ?case
  proof (cases "ls = []")
    case True
    with valid_label_chars(1,3) [OF v] show ?thesis by simp
  next
    case False
    with Cons have "is_alnum (last (concat (map ((#) CHR ''.'') ls)))" by simp
    moreover from False have "concat (map ((#) CHR ''.'') ls) \<noteq> []" by (cases ls) auto
    ultimately show ?thesis by simp
  qed
qed

lemma label_then_dotted:
  assumes "valid_label l" and "no_double_dot t"
  shows "no_double_dot (l @ t)"
proof -
  from valid_label_chars(5) [OF assms(1)] have "no_double_dot l" by (rule no_dot_no_double)
  moreover from valid_label_chars(3) [OF assms(1)] have "last l \<noteq> CHR ''.''"
    using alnum_not_special by blast
  ultimately show ?thesis
    using no_double_dot_append [of l t] assms(2) by blast
qed

lemma dotted_no_double:
  "list_all valid_label ls \<Longrightarrow> no_double_dot (concat (map ((#) CHR ''.'') ls))"
proof (induction ls)
  case Nil
  then show ?case by (simp add: no_double_dot_def)
next
  case (Cons l ls)
  then have v: "valid_label l" and IH: "no_double_dot (concat (map ((#) CHR ''.'') ls))"
    by auto
  let ?t = "l @ concat (map ((#) CHR ''.'') ls)"
  have t: "no_double_dot ?t" using v IH by (rule label_then_dotted)
  from valid_label_chars(1,2) [OF v] have "hd ?t \<noteq> CHR ''.''"
    using alnum_not_special by auto
  moreover have "no_double_dot ''.''" by (simp add: no_double_dot_def)
  ultimately have "no_double_dot (''.'' @ ?t)"
    using no_double_dot_append [of "''.''" ?t] t by blast
  then show ?case by simp
qed

lemma valid_hostname_shape:
  assumes "rfc1123_hostname h"
  shows "h \<noteq> []" "is_alnum (hd h)" "is_alnum (last h)" "no_double_dot h"
    "\<forall>c\<in>set h. is_alnum c \<or> c = CHR ''-'' \<or> c = CHR ''.''"
proof -
  from split_dots_join [of h] obtain l ls
    where sp: "split_dots h = l # ls" and h: "h = l @ concat (map ((#) CHR ''.'') ls)"
    by blast
  from assms sp have v: "valid_label l" and vs: "list_all valid_label ls"
    by (auto simp: rfc1123_hostname_def)
  note l = valid_label_chars [OF v]
  from l(1) h show "h \<noteq> []" by simp
  from l(1,2) h show "is_alnum (hd h)" by simp
  show "is_alnum (last h)"
  proof (cases "ls = []")
    case True
    with l(3) h show ?thesis by simp
  next
    case False
    then have "concat (map ((#) CHR ''.'') ls) \<noteq> []" by (cases ls) auto
    with dotted_last [OF vs False] h show ?thesis by simp
  qed
  from label_then_dotted [OF v dotted_no_double [OF vs]] h show "no_double_dot h" by simp
  from l(4) dotted_chars [OF vs] h
  show "\<forall>c\<in>set h. is_alnum c \<or> c = CHR ''-'' \<or> c = CHR ''.''" by auto
qed

lemma alnum_hostname_char: "is_alnum c \<Longrightarrow> hostname_char c \<or> in_range c (CHR ''A'', CHR ''Z'')"
  by (auto simp: is_alnum_def hostname_char_def)

lemma valid_hostname_not_suspicious:
  assumes "rfc1123_hostname h"
  shows "\<not> list_ex (\<lambda>pattern. re_search pattern h) suspicious_patterns"
proof -
  note shape = valid_hostname_shape [OF assms]
  have 1: "\<not> re_search (Seq dot (Plus dot)) h"
    using double_dot_found shape(4) by blast
  have 2: "\<not> re_search (Seq Bol (Cls (In [(CHR ''-'', CHR ''-'')]))) h"
    using leading_hyphen_found [of h] shape(2) alnum_not_special by auto
  have "CHR 0x0A \<notin> set h" using shape(5) alnum_not_special by auto
  then have 3: "\<not> re_search (Seq (Cls (In [(CHR ''-'', CHR ''-'')])) Eol) h"
    using trailing_hyphen_found [of h] shape(3) alnum_not_special by auto
  have "\<forall>c\<in>set h. hostname_char c \<or> in_range c (CHR ''A'', CHR ''Z'')"
    using shape(5) alnum_hostname_char by (auto simp: hostname_char_def)
  then have 4: "\<not> re_search (Cls (NotIn (alnum @ [(CHR ''.'', CHR ''.''), (CHR ''-'', CHR ''-'')]))) h"
    unfolding search_class invalid_char_class by blast
  from 1 2 3 4 show ?thesis by (simp add: suspicious_patterns_def)
qed

lemma valid_hostname_accepted:
  assumes "s \<noteq> []" and "rfc1123_hostname (py_lower (py_strip s))"
    and "MIN_HOSTNAME_LENGTH cfg \<le> int (length (py_lower (py_strip s)))"
    and "int (length (py_lower (py_strip s))) \<le> MAX_HOSTNAME_LENGTH cfg"
  shows "sanitize_hostname cfg (Some s) = Some (py_lower (py_strip s))"
  unfolding sanitize_Some_iff
  using assms valid_hostname_matches [OF assms(2)] valid_hostname_not_suspicious [OF assms(2)]
  by blast

lemma alnum_lower_char: "is_alnum c \<Longrightarrow> is_alnum (py_lower_char c)"
  by (auto simp: is_alnum_def in_range_def py_lower_char_def py_isupper_def code_char_of code_def)

lemma lower_char_dot: "(py_lower_char c = CHR ''.'') = (c = CHR ''.'')"
proof
  assume "py_lower_char c = CHR ''.''"
  then have "code (py_lower_char c) = 46" by (simp add: code_def)
  then have "code c = 46"
    by (auto simp: py_lower_char_def py_isupper_def code_char_of split: if_splits)
  then show "c = CHR ''.''" by (intro code_inj) (simp add: code_def)
next
  assume "c = CHR ''.''"
  then show "py_lower_char c = CHR ''.''"
    by (simp add: py_lower_char_def py_isupper_def code_def)
qed

lemma lower_char_hyphen: "py_lower_char CHR ''-'' = CHR ''-''"
  by (simp add: py_lower_char_def py_isupper_def code_def)

lemma split_dots_lower: "split_dots (py_lower h) = map py_lower (split_dots h)"
  by (induction h) (auto simp: py_lower_def lower_char_dot split: list.splits)

lemma valid_label_lower: "valid_label l \<Longrightarrow> valid_label (py_lower l)"
  by (auto simp: valid_label_def py_lower_def hd_map last_map list_all_iff
           intro: alnum_lower_char lower_char_hyphen)

lemma rfc1123_lower: "rfc1123_hostname h \<Longrightarrow> rfc1123_hostname (py_lower h)"
  by (auto simp: rfc1123_hostname_def split_dots_lower list_all_iff intro: valid_label_lower)

lemma alnum_not_space: "is_alnum c \<Longrightarrow> \<not> py_isspace c"
  by (auto simp: is_alnum_def in_range_def py_isspace_def code_def)

lemma rfc1123_trimmed: "rfc1123_hostname h \<Longrightarrow> py_strip h = h"
  using valid_hostname_shape(1-3) [of h] alnum_not_space
  by (intro strip_trimmed) (auto simp: trimmed_def)

subsection \<open>Characters outside the hostname alphabet\<close>

text \<open>
  C4, as stated: every string that, after lowercasing, contains a character outside
  \<open>[a-z0-9.-]\<close> is rejected. This fails for white space around a valid name, which
  \<open>strip\<close> removes before any check: the lowercased input below contains spaces and
  is accepted.
\<close>

theorem untrimmed_input_accepted:
  "(\<exists>c\<in>set (py_lower ''  test.example.com  ''). \<not> hostname_char c)
   \<and> sanitize_hostname test_config (Some ''  test.example.com  '') = Some ''test.example.com''"
  by code_simp

text \<open>
  C4, amended: for every string that, after trimming the surrounding white space and
  lowercasing, contains at least one character outside \<open>[a-z0-9.-]\<close>,
  \<open>sanitize_hostname\<close> returns \<open>None\<close>, whatever the configured bounds.
\<close>

theorem sanitize_rejects_foreign_char:
  assumes "c \<in> set (py_lower (py_strip s))" and "\<not> hostname_char c"
  shows "sanitize_hostname cfg (Some s) = None"
proof -
  let ?h = "py_lower (py_strip s)"
  from assms(1) obtain d where "c = py_lower_char d" by (auto simp: py_lower_def)
  then have "\<not> py_isupper c" by (simp add: not_upper_lower_char)
  with upper_range have "\<not> in_range c (CHR ''A'', CHR ''Z'')" by blast
  with assms have
    "re_search (Cls (NotIn (alnum @ [(CHR ''.'', CHR ''.''), (CHR ''-'', CHR ''-'')]))) ?h"
    unfolding search_class invalid_char_class by blast
  then have "list_ex (\<lambda>pattern. re_search pattern ?h) suspicious_patterns"
    by (simp add: suspicious_patterns_def)
  then show ?thesis
    by (simp add: sanitize_hostname_def Let_def)
qed

theorem sanitize_rejects_foreign_char_witness:
  "CHR ''@'' \<in> set (py_lower (py_strip '' Host@Name ''))
   \<and> \<not> hostname_char CHR ''@''
   \<and> sanitize_hostname test_config (Some '' Host@Name '') = None"
proof -
  have 1: "CHR ''@'' \<in> set (py_lower (py_strip '' Host@Name ''))" by code_simp
  have 2: "\<not> hostname_char CHR ''@''" by code_simp
  from sanitize_rejects_foreign_char [OF 1 2, of test_config] 1 2 show ?thesis by simp
qed

subsection \<open>Idempotence and normal form\<close>

text \<open>
  C5: \<open>sanitize_hostname\<close> is idempotent, on every input and for every configuration,
  and a result other than \<open>None\<close> is the input trimmed of surrounding white space and
  lowercased, which \<open>sanitize_hostname\<close> then maps to itself. Every valid RFC 1123
  hostname whose length is within the configured bounds has such a result, its
  lowercased form; so has every input that is such a hostname once trimmed and
  lowercased.
\<close>

theorem sanitize_idempotent:
  "sanitize_hostname cfg (sanitize_hostname cfg x) = sanitize_hostname cfg x
   \<and> (sanitize_hostname cfg (Some s) = Some h \<longrightarrow>
        h = py_lower (py_strip s) \<and> sanitize_hostname cfg (Some h) = Some h)
   \<and> (rfc1123_hostname v \<and> MIN_HOSTNAME_LENGTH cfg \<le> int (length v)
        \<and> int (length v) \<le> MAX_HOSTNAME_LENGTH cfg \<longrightarrow>
        sanitize_hostname cfg (Some v) = Some (py_lower v))
   \<and> (s \<noteq> [] \<and> rfc1123_hostname (py_lower (py_strip s))
        \<and> MIN_HOSTNAME_LENGTH cfg \<le> int (length (py_lower (py_strip s)))
        \<and> int (length (py_lower (py_strip s))) \<le> MAX_HOSTNAME_LENGTH cfg \<longrightarrow>
        sanitize_hostname cfg (Some s) = Some (py_lower (py_strip s)))"
proof (intro conjI impI)
  show "sanitize_hostname cfg (sanitize_hostname cfg x) = sanitize_hostname cfg x"
  proof (cases "sanitize_hostname cfg x")
    case None
    then show ?thesis by (simp add: sanitize_hostname_def)
  next
    case (Some h)
    then obtain s where "x = Some s" by (cases x) (auto simp: sanitize_hostname_def)
    with Some have "sanitize_hostname cfg (Some h) = Some h"
      by (auto dest: sanitize_Some_fixed)
    with Some show ?thesis by simp
  qed
next
  assume a: "sanitize_hostname cfg (Some s) = Some h"
  then show "h = py_lower (py_strip s)" by (simp add: sanitize_Some_iff)
  from a show "sanitize_hostname cfg (Some h) = Some h" by (rule sanitize_Some_fixed)
next
  assume a: "rfc1123_hostname v \<and> MIN_HOSTNAME_LENGTH cfg \<le> int (length v)
        \<and> int (length v) \<le> MAX_HOSTNAME_LENGTH cfg"
  then have t: "py_strip v = v" by (simp add: rfc1123_trimmed)
  from a have "v \<noteq> []" by (simp add: valid_hostname_shape(1))
  moreover from a have "rfc1123_hostname (py_lower (py_strip v))" by (simp add: t rfc1123_lower)
  ultimately have "sanitize_hostname cfg (Some v) = Some (py_lower (py_strip v))"
    using a by (intro valid_hostname_accepted) (simp_all add: t length_py_lower)
  then show "sanitize_hostname cfg (Some v) = Some (py_lower v)" by (simp add: t)
next
  assume "s \<noteq> [] \<and> rfc1123_hostname (py_lower (py_strip s))
        \<and> MIN_HOSTNAME_LENGTH cfg \<le> int (length (py_lower (py_strip s)))
        \<and> int (length (py_lower (py_strip s))) \<le> MAX_HOSTNAME_LENGTH cfg"
  then show "sanitize_hostname cfg (Some s) = Some (py_lower (py_strip s))"
    by (intro valid_hostname_accepted) simp_all
qed

theorem sanitize_idempotent_witness:
  "rfc1123_hostname ''TEST.EXAMPLE.COM''
   \<and> sanitize_hostname test_config (Some ''TEST.EXAMPLE.COM'') = Some ''test.example.com''
   \<and> rfc1123_hostname (py_lower (py_strip ''  test.example.com  ''))
   \<and> sanitize_hostname test_config (Some ''  test.example.com  '') = Some ''test.example.com''
   \<and> sanitize_hostname test_config (Some ''test.example.com'') = Some ''test.example.com''
   \<and> sanitize_hostname test_config (sanitize_hostname test_config (Some ''TEST.EXAMPLE.COM''))
       = sanitize_hostname test_config (Some ''TEST.EXAMPLE.COM'')"
proof -
  have v1: "rfc1123_hostname ''TEST.EXAMPLE.COM''
            \<and> MIN_HOSTNAME_LENGTH test_config \<le> int (length ''TEST.EXAMPLE.COM'')
            \<and> int (length ''TEST.EXAMPLE.COM'') \<le> MAX_HOSTNAME_LENGTH test_config"
    by code_simp
  have l1: "py_lower ''TEST.EXAMPLE.COM'' = ''test.example.com''" by code_simp
  have v2: "''  test.example.com  '' \<noteq> []
            \<and> rfc1123_hostname (py_lower (py_strip ''  test.example.com  ''))
            \<and> MIN_HOSTNAME_LENGTH test_config
                \<le> int (length (py_lower (py_strip ''  test.example.com  '')))
            \<and> int (length (py_lower (py_strip ''  test.example.com  '')))
                \<le> MAX_HOSTNAME_LENGTH test_config"
    by code_simp
  have l2: "py_lower (py_strip ''  test.example.com  '') = ''test.example.com''" by code_simp
  note a = sanitize_idempotent [of test_config "Some ''TEST.EXAMPLE.COM''"
             "''TEST.EXAMPLE.COM''" "''test.example.com''" "''TEST.EXAMPLE.COM''"]
  note b = sanitize_idempotent [of test_config "Some ''TEST.EXAMPLE.COM''"
             "''  test.example.com  ''" "''test.example.com''" "''TEST.EXAMPLE.COM''"]
  from a v1 l1 have 1: "sanitize_hostname test_config (Some ''TEST.EXAMPLE.COM'')
                          = Some ''test.example.com''"
    by metis
  from b v2 l2 have 2: "sanitize_hostname test_config (Some ''  test.example.com  '')
                          = Some ''test.example.com''"
    by metis
  from a 1 have 3: "sanitize_hostname test_config (Some ''test.example.com'')
                      = Some ''test.example.com''"
    by blast
  from a have 4: "sanitize_hostname test_config
                    (sanitize_hostname test_config (Some ''TEST.EXAMPLE.COM''))
                  = sanitize_hostname test_config (Some ''TEST.EXAMPLE.COM'')"
    by blast
  from v1 v2 1 2 3 4 show ?thesis by blast
qed

subsection \<open>Length bounds\<close>

lemma strip_replicate: "\<not> py_isspace c \<Longrightarrow> py_strip (replicate n c) = replicate n c"
  by (rule strip_trimmed) (cases n; simp add: trimmed_def)

text \<open>
  C6: \<open>sanitize_hostname\<close> returns \<open>None\<close> for \<open>None\<close>, for the empty string, and for
  every input whose length after trimming and lowercasing is below the configured
  minimum or above the configured maximum; with a maximum below 300, as the default 253
  is, a string of 300 letters a is rejected.
\<close>

theorem sanitize_length_bounds:
  "sanitize_hostname cfg None = None
   \<and> sanitize_hostname cfg (Some []) = None
   \<and> (int (length (py_lower (py_strip s))) < MIN_HOSTNAME_LENGTH cfg
        \<or> int (length (py_lower (py_strip s))) > MAX_HOSTNAME_LENGTH cfg
      \<longrightarrow> sanitize_hostname cfg (Some s) = None)
   \<and> (MAX_HOSTNAME_LENGTH cfg < 300
      \<longrightarrow> sanitize_hostname cfg (Some (replicate 300 CHR ''a'')) = None)"
proof -
  have "\<not> py_isspace CHR ''a''" by (simp add: py_isspace_def code_def)
  then have "length (py_lower (py_strip (replicate 300 CHR ''a''))) = 300"
    by (simp add: strip_replicate length_py_lower)
  then show ?thesis
    by (simp add: sanitize_hostname_def Let_def)
qed

theorem sanitize_length_bounds_witness:
  "MIN_HOSTNAME_LENGTH test_config = 1 \<and> MAX_HOSTNAME_LENGTH test_config = 253
   \<and> int (length (py_lower (py_strip ''   ''))) < MIN_HOSTNAME_LENGTH test_config
   \<and> sanitize_hostname test_config (Some ''   '') = None
   \<and> sanitize_hostname test_config (Some (replicate 300 CHR ''a'')) = None
   \<and> sanitize_hostname test_config None = None
   \<and> sanitize_hostname test_config (Some []) = None"
proof -
  have 1: "int (length (py_lower (py_strip ''   ''))) < MIN_HOSTNAME_LENGTH test_config"
    by code_simp
  have 2: "MIN_HOSTNAME_LENGTH test_config = 1 \<and> MAX_HOSTNAME_LENGTH test_config = 253"
    by (simp add: test_config_def)
  from sanitize_length_bounds [of test_config "''   ''"] 1 2 show ?thesis by simp
qed

section \<open>Properties of the controller client and the handler\<close>

subsection \<open>Running the steps\<close>

lemma and_then_Inl: "m st = (Inl e, st') \<Longrightarrow> and_then m f st = (Inl e, st')"
  by (simp add: and_then_def)

lemma and_then_Inr: "m st = (Inr a, st') \<Longrightarrow> and_then m f st = f a st'"
  by (simp add: and_then_def)

lemma and_then_lift: "and_then (lift r) f st = (case r of Inl e \<Rightarrow> (Inl e, st) | Inr a \<Rightarrow> f a st)"
  by (simp add: and_then_def lift_def split: sum.splits)

lemma requests_call_eq:
  "send env rq w = (out, w') \<Longrightarrow> requests_call env rq (w, sent) = (out, (w', sent @ [rq]))"
  by (simp add: requests_call_def)

text \<open>The lookup step of \<open>launch_named\<close>, then its launch step.\<close>

lemma launch_named_lookup_fails:
  assumes "send env (lookup_request cfg path name) w = (out, w')"
    and "call_failure out = Some e"
  shows "launch_named env cfg h path name nf jt (w, sent)
           = (Inl e, (w', sent @ [lookup_request cfg path name]))"
  using assms
  by (auto simp: launch_named_def and_then_def requests_call_def lift_def call_failure_def
           split: sum.splits)

lemma launch_named_resolve:
  assumes "send env (lookup_request cfg path name) w = (Inr r, w')"
    and "raise_for_status r = Inr ()"
    and "json_result r = Inr found"
  shows "launch_named env cfg h path name nf jt (w, sent)
           = (case resolved_id found of
                Inl e \<Rightarrow> (Inl e, (w', sent @ [lookup_request cfg path name]))
              | Inr None \<Rightarrow> (Inr (Some (Failure nf)), (w', sent @ [lookup_request cfg path name]))
              | Inr (Some i) \<Rightarrow>
                  and_then (requests_call env (launch_request env cfg path i h)) (\<lambda>response.
                  and_then (lift (raise_for_status response)) (\<lambda>_.
                  and_then (lift (json_result response)) (\<lambda>job_data.
                  and_then (lift (py_get job_data ''id'' JNull)) (\<lambda>job_id.
                    returns (Some (Success job_id jt h))))))
                    (w', sent @ [lookup_request cfg path name]))"
  using assms
  by (auto simp: launch_named_def and_then_def requests_call_def lift_def resolved_id_def
           returns_def split: sum.splits)


lemma launch_named_launch_fails:
  assumes "send env (lookup_request cfg path name) w = (Inr r, w')"
    and "raise_for_status r = Inr ()"
    and "json_result r = Inr found"
    and "resolved_id found = Inr (Some i)"
    and "send env (launch_request env cfg path i h) w' = (out, w'')"
    and "call_failure out = Some e"
  shows "launch_named env cfg h path name nf jt (w, sent)
           = (Inl e, (w'', sent @ [lookup_request cfg path name, launch_request env cfg path i h]))"
  using assms(4-6)
  by (auto simp: launch_named_resolve [OF assms(1-3)] and_then_def requests_call_def lift_def
                 call_failure_def split: sum.splits)

lemma launch_named_launch_returns:
  assumes "send env (lookup_request cfg path name) w = (Inr r, w')"
    and "raise_for_status r = Inr ()"
    and "json_result r = Inr found"
    and "resolved_id found = Inr (Some i)"
    and "send env (launch_request env cfg path i h) w' = (Inr r', w'')"
    and "raise_for_status r' = Inr ()"
    and "json_result r' = Inr job_data"
  shows "launch_named env cfg h path name nf jt (w, sent)
           = (case py_get job_data ''id'' JNull of
                Inl e \<Rightarrow> Inl e
              | Inr job_id \<Rightarrow> Inr (Some (Success job_id jt h)),
              (w'', sent @ [lookup_request cfg path name, launch_request env cfg path i h]))"
  using assms(4-7)
  by (auto simp: launch_named_resolve [OF assms(1-3)] and_then_def requests_call_def lift_def
                 returns_def split: sum.splits)

lemma trigger_kind:
  assumes "configured_kind cfg = Some (path, name, nf, jt)"
  shows "trigger_awx_job env cfg h st
           = (case launch_named env cfg h path name nf jt st of
                (Inr result, st') \<Rightarrow> (result, st')
              | (Inl e, st') \<Rightarrow> (Some (Failure (failure_text e)), st'))"
  using assms
  by (auto simp: trigger_awx_job_def configured_kind_def split: if_splits prod.splits sum.splits exn.splits)

lemma trigger_unconfigured:
  "configured_kind cfg = None \<Longrightarrow> trigger_awx_job env cfg h st = (None, st)"
  by (auto simp: trigger_awx_job_def configured_kind_def returns_def split: if_splits)

lemma launch_named_calls:
  "\<exists>calls. snd (snd (launch_named env cfg h path name nf jt (w, sent))) = sent @ calls
      \<and> (calls = [lookup_request cfg path name]
          \<or> (\<exists>i. calls = [lookup_request cfg path name, launch_request env cfg path i h]))"
  by (auto simp: launch_named_def and_then_def requests_call_def lift_def returns_def
           split: sum.splits prod.splits)

lemma trigger_calls:
  assumes "configured_kind cfg = Some (path, name, nf, jt)"
  shows "\<exists>calls. snd (snd (trigger_awx_job env cfg h (w, sent))) = sent @ calls
      \<and> (calls = [lookup_request cfg path name]
          \<or> (\<exists>i. calls = [lookup_request cfg path name, launch_request env cfg path i h]))"
proof -
  have "snd (trigger_awx_job env cfg h (w, sent))
          = snd (launch_named env cfg h path name nf jt (w, sent))"
    by (simp add: trigger_kind [OF assms] split: prod.splits sum.splits)
  with launch_named_calls [of env cfg h path name nf jt w sent] show ?thesis by simp
qed

lemma provision_sanitized:
  assumes "extract_hostname (payload rq) = Inr (JStr s)"
    and "sanitize_hostname cfg (Some s) = Some h"
  shows "provision env cfg rq st
           = (case trigger_awx_job env cfg h st of
                (result, st') \<Rightarrow>
                  (case job_response h result of
                     Inl e \<Rightarrow> internal_server_error
                   | Inr resp \<Rightarrow> resp, st'))"
  using assms sanitize_Some_nonempty [OF assms(2)]
  by (auto simp: provision_def provision_body_def and_then_def lift_def sanitize_value_def
           split: prod.splits sum.splits)

lemma extract_json_request: "extract_hostname (payload (json_request s)) = Inr (JStr s)"
  by (simp add: json_request_def extract_hostname_def)

subsection \<open>A name that is not found\<close>

lemma resolved_id_none:
  "py_get found ''results'' (JArr []) = Inr t \<Longrightarrow> \<not> truthy t \<Longrightarrow> resolved_id found = Inr None"
  by (simp add: resolved_id_def)

text \<open>
  C7: when the lookup of the configured template or workflow answers without an error
  status and the \<open>results\<close> of its body are empty (or missing, or any false value),
  \<open>trigger_awx_job\<close> returns the failure \<open>Template not found\<close> or
  \<open>Workflow not found\<close>, by the configured kind, having sent the lookup \<open>GET\<close> and
  nothing else; \<open>provision\<close> then answers a valid hostname with status 500 and that
  error.
\<close>

theorem not_found_without_launch:
  assumes "configured_kind cfg = Some (path, name, nf, jt)"
    and "send env (lookup_request cfg path name) w = (Inr r, w')"
    and "raise_for_status r = Inr ()"
    and "json_result r = Inr found"
    and "py_get found ''results'' (JArr []) = Inr t"
    and "\<not> truthy t"
  shows "trigger_awx_job env cfg h (w, sent)
           = (Some (Failure nf), (w', sent @ [lookup_request cfg path name]))
       \<and> verb (lookup_request cfg path name) = GET
       \<and> nf = (if truthy_opt (AWX_TEMPLATE_NAME cfg) then ''Template not found''
               else ''Workflow not found'')
       \<and> (extract_hostname (payload rq) = Inr (JStr s) \<and> sanitize_hostname cfg (Some s) = Some h
            \<longrightarrow> provision env cfg rq (w, sent)
                  = ((500, JObj [(''success'', JBool False), (''hostname'', JStr h),
                                 (''error'', JStr nf)]),
                     (w', sent @ [lookup_request cfg path name])))"
proof -
  have t: "trigger_awx_job env cfg h (w, sent)
             = (Some (Failure nf), (w', sent @ [lookup_request cfg path name]))"
    by (simp add: trigger_kind [OF assms(1)] launch_named_resolve [OF assms(2-4)]
          resolved_id_none [OF assms(5,6)])
  have n: "nf = (if truthy_opt (AWX_TEMPLATE_NAME cfg) then ''Template not found''
                 else ''Workflow not found'')"
    using assms(1) by (auto simp: configured_kind_def split: if_splits)
  have "verb (lookup_request cfg path name) = GET" by (simp add: lookup_request_def)
  moreover have "provision env cfg rq (w, sent)
                  = ((500, JObj [(''success'', JBool False), (''hostname'', JStr h),
                                 (''error'', JStr nf)]),
                     (w', sent @ [lookup_request cfg path name]))"
    if "extract_hostname (payload rq) = Inr (JStr s)" "sanitize_hostname cfg (Some s) = Some h"
    by (simp add: provision_sanitized [OF that] t job_response_def)
  ultimately show ?thesis using t n by blast
qed

theorem not_found_without_launch_witness:
  "trigger_awx_job scripted test_config ''testhost.example.com''
      ([answer 200 ''OK'' (JObj [(''count'', JNum 0), (''results'', JArr [])])], [])
     = (Some (Failure ''Template not found''),
        ([], [lookup_request test_config ''/api/v2/job_templates/'' ''test-template'']))
   \<and> provision scripted test_config (json_request ''testhost.example.com'')
      ([answer 200 ''OK'' (JObj [(''count'', JNum 0), (''results'', JArr [])])], [])
     = ((500, JObj [(''success'', JBool False), (''hostname'', JStr ''testhost.example.com''),
                    (''error'', JStr ''Template not found'')]),
        ([], [lookup_request test_config ''/api/v2/job_templates/'' ''test-template'']))"
proof -
  let ?found = "JObj [(''count'', JNum 0), (''results'', JArr [])]"
  let ?r = "\<lparr> status_code = 200, reason = ''OK'',
              response_url = ''https://test.example.com/api/v2/'', json_result = Inr ?found \<rparr>"
  have 1: "configured_kind test_config
             = Some (''/api/v2/job_templates/'', ''test-template'', ''Template not found'',
                     ''template'')"
    by (simp add: configured_kind_def test_config_def)
  have 2: "send scripted (lookup_request test_config ''/api/v2/job_templates/'' ''test-template'')
             [answer 200 ''OK'' ?found] = (Inr ?r, [])"
    by (simp add: scripted_def answer_def)
  have 3: "raise_for_status ?r = Inr ()" by (simp add: raise_for_status_def)
  have 4: "json_result ?r = Inr ?found" by simp
  have 5: "py_get ?found ''results'' (JArr []) = Inr (JArr [])" by simp
  have 6: "\<not> truthy (JArr [])" by simp
  have 7: "extract_hostname (payload (json_request ''testhost.example.com''))
             = Inr (JStr ''testhost.example.com'')"
    by (rule extract_json_request)
  have 8: "sanitize_hostname test_config (Some ''testhost.example.com'')
             = Some ''testhost.example.com''"
    by code_simp
  from not_found_without_launch [OF 1 2 3 4 5 6, of "''testhost.example.com''" "[]"
         "json_request ''testhost.example.com''" "''testhost.example.com''"] 7 8
  show ?thesis by (simp add: test_config_def)
qed

subsection \<open>Failed calls\<close>

lemma call_failure_status:
  "400 \<le> status_code r \<and> status_code r < 600 \<Longrightarrow>
     call_failure (Inr r)
       = Some (RequestException
                 (http_error_msg r (if status_code r < 500 then ''Client'' else ''Server'')))"
  by (auto simp: call_failure_def raise_for_status_def)

lemma timeout_text_only: "failure_text x = ''AWX API timeout'' \<Longrightarrow> \<exists>m. x = Timeout m"
  by (cases x) auto

lemma launch_named_returns:
  "launch_named env cfg h path name nf jt st = (Inr x, st') \<Longrightarrow>
     x = Some (Failure nf) \<or> (\<exists>job_id. x = Some (Success job_id jt h))"
  by (auto simp: launch_named_def and_then_def requests_call_def lift_def returns_def
           split: sum.splits prod.splits if_splits)

lemma not_found_text:
  "configured_kind cfg = Some (path, name, nf, jt) \<Longrightarrow>
     nf = ''Template not found'' \<or> nf = ''Workflow not found''"
  by (auto simp: configured_kind_def split: if_splits)

lemma timeout_result_only:
  assumes "configured_kind cfg = Some (path, name, nf, jt)"
    and "fst (trigger_awx_job env cfg h st) = Some (Failure ''AWX API timeout'')"
  shows "\<exists>m. fst (launch_named env cfg h path name nf jt st) = Inl (Timeout m)"
proof -
  obtain res st' where Pair: "launch_named env cfg h path name nf jt st = (res, st')"
    by (metis surj_pair)
  show ?thesis
  proof (cases res)
    case (Inl e)
    with Pair assms(2) have "failure_text e = ''AWX API timeout''"
      by (simp add: trigger_kind [OF assms(1)])
    then obtain m where "e = Timeout m" using timeout_text_only by blast
    with Pair Inl show ?thesis by simp
  next
    case (Inr x)
    with Pair assms(2) have "x = Some (Failure ''AWX API timeout'')"
      by (simp add: trigger_kind [OF assms(1)])
    moreover from Pair Inr have "x = Some (Failure nf) \<or> (\<exists>job_id. x = Some (Success job_id jt h))"
      using launch_named_returns by blast
    ultimately have "nf = ''AWX API timeout''" by auto
    with not_found_text [OF assms(1)] show ?thesis by auto
  qed
qed

text \<open>
  C8, amended: an exception of either outbound call, or of \<open>raise_for_status\<close> on its
  response, ends \<open>trigger_awx_job\<close> with a failure whose message is the text that
  the handlers give the exception, and the failed call is the last one sent. A timeout
  gives \<open>AWX API timeout\<close>, and no result has that message unless a timeout was
  raised; another transport error gives \<open>AWX API error:\<close> followed by its text; a
  response with an error status, 400 to 599, is such an error, whose text names the
  status. In every case the calls sent are the lookup, or the lookup followed by one
  launch: no call is sent twice.
\<close>

theorem outbound_failure_reported_once:
  assumes "configured_kind cfg = Some (path, name, nf, jt)"
  shows
   "(send env (lookup_request cfg path name) w = (out, w') \<and> call_failure out = Some e \<longrightarrow>
       trigger_awx_job env cfg h (w, sent)
         = (Some (Failure (failure_text e)), (w', sent @ [lookup_request cfg path name])))
    \<and> (send env (lookup_request cfg path name) w = (Inr r, w') \<and> raise_for_status r = Inr ()
        \<and> json_result r = Inr found \<and> resolved_id found = Inr (Some i)
        \<and> send env (launch_request env cfg path i h) w' = (out', w'')
        \<and> call_failure out' = Some e' \<longrightarrow>
       trigger_awx_job env cfg h (w, sent)
         = (Some (Failure (failure_text e')),
            (w'', sent @ [lookup_request cfg path name, launch_request env cfg path i h])))
    \<and> call_failure (Inl x) = Some x
    \<and> (400 \<le> status_code r' \<and> status_code r' < 600 \<longrightarrow>
         call_failure (Inr r')
           = Some (RequestException
                     (http_error_msg r' (if status_code r' < 500 then ''Client'' else ''Server''))))
    \<and> failure_text (Timeout m) = ''AWX API timeout''
    \<and> failure_text (RequestException d) = ''AWX API error: '' @ d
    \<and> (fst (trigger_awx_job env cfg h (w, sent)) = Some (Failure ''AWX API timeout'') \<longrightarrow>
         (\<exists>m'. fst (launch_named env cfg h path name nf jt (w, sent)) = Inl (Timeout m')))
    \<and> (\<exists>calls. snd (snd (trigger_awx_job env cfg h (w, sent))) = sent @ calls
          \<and> (calls = [lookup_request cfg path name]
              \<or> (\<exists>j. calls = [lookup_request cfg path name, launch_request env cfg path j h])))"
proof -
  have 1: "trigger_awx_job env cfg h (w, sent)
         = (Some (Failure (failure_text e)), (w', sent @ [lookup_request cfg path name]))"
    if "send env (lookup_request cfg path name) w = (out, w')" "call_failure out = Some e"
    by (simp add: trigger_kind [OF assms] launch_named_lookup_fails [OF that])
  have 2: "trigger_awx_job env cfg h (w, sent)
         = (Some (Failure (failure_text e')),
            (w'', sent @ [lookup_request cfg path name, launch_request env cfg path i h]))"
    if "send env (lookup_request cfg path name) w = (Inr r, w')" "raise_for_status r = Inr ()"
       "json_result r = Inr found" "resolved_id found = Inr (Some i)"
       "send env (launch_request env cfg path i h) w' = (out', w'')"
       "call_failure out' = Some e'"
    by (simp add: trigger_kind [OF assms] launch_named_launch_fails [OF that])
  have 3: "call_failure (Inl x) = Some x" by (simp add: call_failure_def)
  note 4 = call_failure_status [of r']
  note 5 = timeout_result_only [OF assms, of env h "(w, sent)"]
  note 6 = trigger_calls [OF assms, of env h w sent]
  from 1 2 3 4 5 6 show ?thesis by simp
qed

lemma test_config_kind:
  "configured_kind test_config
     = Some (''/api/v2/job_templates/'', ''test-template'', ''Template not found'', ''template'')"
  by (simp add: configured_kind_def test_config_def)

lemma scripted_send: "send scripted rq (x # xs) = (x, xs)"
  by (simp add: scripted_def)

theorem outbound_failure_reported_once_witness:
  "trigger_awx_job scripted test_config ''testhost''
      ([Inl (Timeout ''Read timed out.'')], [])
     = (Some (Failure ''AWX API timeout''),
        ([], [lookup_request test_config ''/api/v2/job_templates/'' ''test-template'']))
   \<and> trigger_awx_job scripted test_config ''testhost''
      ([answer 200 ''OK'' (JObj [(''results'', JArr [JObj [(''id'', JNum 7)]])]),
        answer 503 ''Service Unavailable'' JNull], [])
     = (Some (Failure (''AWX API error: 503 Server Error: Service Unavailable for url: ''
                         @ ''https://test.example.com/api/v2/'')),
        ([], [lookup_request test_config ''/api/v2/job_templates/'' ''test-template'',
              launch_request scripted test_config ''/api/v2/job_templates/'' (JNum 7)
                ''testhost'']))
   \<and> call_failure (answer 503 ''Service Unavailable'' JNull)
     = Some (RequestException (''503 Server Error: Service Unavailable for url: ''
                                 @ ''https://test.example.com/api/v2/''))
   \<and> (\<exists>m. fst (launch_named scripted test_config ''testhost'' ''/api/v2/job_templates/''
                  ''test-template'' ''Template not found'' ''template''
                  ([Inl (Timeout ''Read timed out.'')], []))
            = Inl (Timeout m))"
proof -
  let ?lookup = "lookup_request test_config ''/api/v2/job_templates/'' ''test-template''"
  let ?found = "JObj [(''results'', JArr [JObj [(''id'', JNum 7)]])]"
  let ?r = "\<lparr> status_code = 200, reason = ''OK'',
              response_url = ''https://test.example.com/api/v2/'', json_result = Inr ?found \<rparr>"
  let ?bad = "\<lparr> status_code = 503, reason = ''Service Unavailable'',
              response_url = ''https://test.example.com/api/v2/'', json_result = Inr JNull \<rparr>"
  have a1: "send scripted ?lookup [Inl (Timeout ''Read timed out.'')]
              = (Inl (Timeout ''Read timed out.''), [])"
    by (rule scripted_send)
  have a2: "call_failure (Inl (Timeout ''Read timed out.'')) = Some (Timeout ''Read timed out.'')"
    by (simp add: call_failure_def)
  have first: "trigger_awx_job scripted test_config ''testhost''
      ([Inl (Timeout ''Read timed out.'')], [])
     = (Some (Failure ''AWX API timeout''), ([], [?lookup]))"
    using outbound_failure_reported_once [OF test_config_kind, of scripted
            "[Inl (Timeout ''Read timed out.'')]" "Inl (Timeout ''Read timed out.'')" "[]"
            "Timeout ''Read timed out.''" "''testhost''" "[]"] a1 a2
    by simp
  have b1: "send scripted ?lookup [Inr ?r, Inr ?bad] = (Inr ?r, [Inr ?bad])"
    by (rule scripted_send)
  have b2: "raise_for_status ?r = Inr ()" by (simp add: raise_for_status_def)
  have b3: "json_result ?r = Inr ?found" by simp
  have b4: "resolved_id ?found = Inr (Some (JNum 7))" by (simp add: resolved_id_def)
  have b5: "send scripted
              (launch_request scripted test_config ''/api/v2/job_templates/'' (JNum 7) ''testhost'')
              [Inr ?bad] = (Inr ?bad, [])"
    by (rule scripted_send)
  have msg: "http_error_msg ?bad (if status_code ?bad < 500 then ''Client'' else ''Server'')
               = ''503 Server Error: Service Unavailable for url: ''
                   @ ''https://test.example.com/api/v2/''"
    by code_simp
  have b6: "call_failure (Inr ?bad)
              = Some (RequestException (''503 Server Error: Service Unavailable for url: ''
                         @ ''https://test.example.com/api/v2/''))"
    using outbound_failure_reported_once [OF test_config_kind, where r' = ?bad
            and env = scripted and w = "[]" and h = "''testhost''" and sent = "[]"] msg
    by simp
  have second: "trigger_awx_job scripted test_config ''testhost'' ([Inr ?r, Inr ?bad], [])
     = (Some (Failure (''AWX API error: 503 Server Error: Service Unavailable for url: ''
                         @ ''https://test.example.com/api/v2/'')),
        ([], [?lookup,
              launch_request scripted test_config ''/api/v2/job_templates/'' (JNum 7)
                ''testhost'']))"
    using outbound_failure_reported_once [OF test_config_kind, where env = scripted
            and w = "[Inr ?r, Inr ?bad]" and r = ?r and w' = "[Inr ?bad]" and found = ?found
            and i = "JNum 7" and h = "''testhost''" and out' = "Inr ?bad" and w'' = "[]"
            and e' = "RequestException (''503 Server Error: Service Unavailable for url: ''
                         @ ''https://test.example.com/api/v2/'')" and sent = "[]"]
          b1 b2 b3 b4 b5 b6
    by simp
  have third: "\<exists>m. fst (launch_named scripted test_config ''testhost''
                  ''/api/v2/job_templates/'' ''test-template'' ''Template not found''
                  ''template'' ([Inl (Timeout ''Read timed out.'')], []))
            = Inl (Timeout m)"
    using outbound_failure_reported_once [OF test_config_kind, where env = scripted
            and w = "[Inl (Timeout ''Read timed out.'')]" and h = "''testhost''" and sent = "[]"]
          first
    by simp
  from first second b6 third show ?thesis by (simp add: answer_def)
qed

text \<open>
  C8, as stated: every response that is not 2xx yields a failure. This fails for a status
  below 400 outside 200 to 299, which \<open>raise_for_status\<close> lets pass: a lookup
  answered with status 300 and a body of results is followed by the launch, and the
  result is a success.
\<close>

theorem multiple_choices_lookup_succeeds:
  "status_code \<lparr> status_code = 300, reason = ''Multiple Choices'',
                 response_url = ''https://test.example.com/api/v2/'',
                 json_result = Inr (JObj [(''results'', JArr [JObj [(''id'', JNum 7)]])]) \<rparr>
     \<notin> {200..299}
   \<and> trigger_awx_job scripted test_config ''testhost''
      ([answer 300 ''Multiple Choices'' (JObj [(''results'', JArr [JObj [(''id'', JNum 7)]])]),
        answer 201 ''Created'' (JObj [(''id'', JNum 42)])], [])
     = (Some (Success (JNum 42) ''template'' ''testhost''),
        ([], [lookup_request test_config ''/api/v2/job_templates/'' ''test-template'',
              launch_request scripted test_config ''/api/v2/job_templates/'' (JNum 7)
                ''testhost'']))"
  by (simp add: trigger_kind [OF test_config_kind] launch_named_def and_then_def
        requests_call_def lift_def returns_def scripted_def answer_def raise_for_status_def)

subsection \<open>Authentication\<close>

lemma b64encode_vectors:
  "b64encode (utf8 '''') = ''''
   \<and> b64encode (utf8 ''f'') = ''Zg==''
   \<and> b64encode (utf8 ''fo'') = ''Zm8=''
   \<and> b64encode (utf8 ''foo'') = ''Zm9v''
   \<and> b64encode (utf8 ''foob'') = ''Zm9vYg==''
   \<and> b64encode (utf8 ''fooba'') = ''Zm9vYmE=''
   \<and> b64encode (utf8 ''foobar'') = ''Zm9vYmFy''"
  by code_simp

lemma authorization_of_headers:
  "map_of ((''Content-Type'', ''application/json'') # get_awx_auth_headers cfg) ''Authorization''
     = map_of (get_awx_auth_headers cfg) ''Authorization''"
  by simp

lemma trigger_calls_headers:
  assumes "rq \<in> set (snd (snd (trigger_awx_job env cfg h (w, []))))"
  shows "headers rq = (''Content-Type'', ''application/json'') # get_awx_auth_headers cfg"
proof (cases "configured_kind cfg")
  case None
  with assms show ?thesis by (simp add: trigger_unconfigured)
next
  case (Some k)
  then obtain path name nf jt where "configured_kind cfg = Some (path, name, nf, jt)"
    by (cases k) auto
  from trigger_calls [OF this, of env h w "[]"] assms show ?thesis
    by (auto simp: lookup_request_def launch_request_def)
qed

text \<open>
  C9: with a token configured (a string that is not empty) the headers of
  \<open>get_awx_auth_headers\<close> are \<open>Authorization: Bearer\<close> and the token, whatever the
  username and password; otherwise they are \<open>Authorization: Basic\<close> and the base64 of
  \<open>username:password\<close>. Every call that \<open>trigger_awx_job\<close> sends carries this
  \<open>Authorization\<close> header.
\<close>

theorem authorization_header:
  "(AWX_TOKEN cfg = Some token \<and> token \<noteq> [] \<longrightarrow>
      get_awx_auth_headers cfg = [(''Authorization'', ''Bearer '' @ token)])
   \<and> (\<not> truthy_opt (AWX_TOKEN cfg) \<longrightarrow>
      get_awx_auth_headers cfg
        = [(''Authorization'',
            ''Basic '' @ b64encode (utf8 (fmt_opt (AWX_USERNAME cfg) @ '':''
                                          @ fmt_opt (AWX_PASSWORD cfg))))])
   \<and> (\<forall>rq \<in> set (snd (snd (trigger_awx_job env cfg h (w, [])))).
        map_of (headers rq) ''Authorization''
          = map_of (get_awx_auth_headers cfg) ''Authorization'')"
proof -
  have "\<forall>rq \<in> set (snd (snd (trigger_awx_job env cfg h (w, [])))).
        map_of (headers rq) ''Authorization''
          = map_of (get_awx_auth_headers cfg) ''Authorization''"
    using trigger_calls_headers [of _ env cfg h w] authorization_of_headers [of cfg] by simp
  then show ?thesis
    by (auto simp: get_awx_auth_headers_def Let_def)
qed

theorem authorization_header_witness:
  "get_awx_auth_headers (test_config \<lparr> AWX_TOKEN := Some ''secret'' \<rparr>)
     = [(''Authorization'', ''Bearer secret'')]
   \<and> get_awx_auth_headers test_config = [(''Authorization'', ''Basic dGVzdDp0ZXN0'')]
   \<and> map_of (headers (lookup_request test_config ''/api/v2/job_templates/'' ''test-template''))
        ''Authorization'' = Some ''Basic dGVzdDp0ZXN0''"
proof -
  let ?w = "[Inl (Timeout ''Read timed out.'')] :: (exn + response) list"
  have 1: "AWX_TOKEN (test_config \<lparr> AWX_TOKEN := Some ''secret'' \<rparr>) = Some ''secret''
           \<and> ''secret'' \<noteq> []"
    by simp
  have 2: "\<not> truthy_opt (AWX_TOKEN test_config)" by (simp add: test_config_def)
  have 3: "b64encode (utf8 (fmt_opt (AWX_USERNAME test_config) @ '':''
                             @ fmt_opt (AWX_PASSWORD test_config))) = ''dGVzdDp0ZXN0''"
    by code_simp
  have 4: "lookup_request test_config ''/api/v2/job_templates/'' ''test-template''
             \<in> set (snd (snd (trigger_awx_job scripted test_config ''testhost'' (?w, []))))"
    by (simp add: trigger_kind [OF test_config_kind]
          launch_named_lookup_fails [OF scripted_send] call_failure_def)
  from authorization_header [of "test_config \<lparr> AWX_TOKEN := Some ''secret'' \<rparr>" "''secret''"
         scripted "''testhost''" ?w] 1
  have a: "get_awx_auth_headers (test_config \<lparr> AWX_TOKEN := Some ''secret'' \<rparr>)
             = [(''Authorization'', ''Bearer secret'')]"
    by simp
  from authorization_header [of test_config "''secret''" scripted "''testhost''" ?w] 2 3 4
  have "get_awx_auth_headers test_config = [(''Authorization'', ''Basic dGVzdDp0ZXN0'')]
        \<and> map_of (headers (lookup_request test_config ''/api/v2/job_templates/''
                     ''test-template'')) ''Authorization''
            = map_of (get_awx_auth_headers test_config) ''Authorization''"
    by auto
  with a show ?thesis by simp
qed

subsection \<open>No name configured\<close>

text \<open>
  C10: when neither a template name nor a workflow name is configured, validation
  fails, which stops the application unless it runs in development mode, where it
  starts. Then \<open>trigger_awx_job\<close> returns \<open>None\<close> for every hostname and sends
  nothing (the world and the list of sent requests are unchanged), and \<open>provision\<close>
  answers every valid hostname with status 500 and the body
  \<open>{"error": "Internal server error"}\<close>.
\<close>

theorem unconfigured_internal_error:
  assumes "\<not> truthy_opt (AWX_TEMPLATE_NAME cfg)" and "\<not> truthy_opt (AWX_WORKFLOW_NAME cfg)"
  shows "validate cfg \<noteq> None
       \<and> starts flask_env cfg = (flask_env = Some ''development'')
       \<and> trigger_awx_job env cfg h st = (None, st)
       \<and> (extract_hostname (payload rq) = Inr (JStr s) \<and> sanitize_hostname cfg (Some s) = Some h
            \<longrightarrow> provision env cfg rq st
                  = ((500, JObj [(''error'', JStr ''Internal server error'')]), st))"
proof -
  from assms have v: "validate cfg \<noteq> None" by (simp add: validate_def)
  then have d: "starts flask_env cfg = (flask_env = Some ''development'')"
    unfolding starts_def by blast
  from assms have k: "configured_kind cfg = None" by (simp add: configured_kind_def)
  then have t: "trigger_awx_job env cfg h st = (None, st)" by (rule trigger_unconfigured)
  have "provision env cfg rq st = ((500, JObj [(''error'', JStr ''Internal server error'')]), st)"
    if "extract_hostname (payload rq) = Inr (JStr s)" "sanitize_hostname cfg (Some s) = Some h"
    by (simp add: provision_sanitized [OF that] t job_response_def internal_server_error_def)
  with v d t show ?thesis by blast
qed

theorem unconfigured_internal_error_witness:
  "starts (Some ''development'') (test_config \<lparr> AWX_TEMPLATE_NAME := None \<rparr>)
   \<and> trigger_awx_job scripted (test_config \<lparr> AWX_TEMPLATE_NAME := None \<rparr>)
      ''testhost.example.com'' ([], []) = (None, ([], []))
   \<and> provision scripted (test_config \<lparr> AWX_TEMPLATE_NAME := None \<rparr>)
        (json_request ''TestHost.Example.com'') ([], [])
      = ((500, JObj [(''error'', JStr ''Internal server error'')]), ([], []))"
proof -
  let ?cfg = "test_config \<lparr> AWX_TEMPLATE_NAME := None \<rparr>"
  have 1: "\<not> truthy_opt (AWX_TEMPLATE_NAME ?cfg)" by simp
  have 2: "\<not> truthy_opt (AWX_WORKFLOW_NAME ?cfg)" by (simp add: test_config_def)
  have 3: "extract_hostname (payload (json_request ''TestHost.Example.com''))
             = Inr (JStr ''TestHost.Example.com'')"
    by (rule extract_json_request)
  have 4: "sanitize_hostname ?cfg (Some ''TestHost.Example.com'') = Some ''testhost.example.com''"
    by code_simp
  from unconfigured_internal_error [OF 1 2, of "Some ''development''" scripted
         "''testhost.example.com''" "([], [])"
         "json_request ''TestHost.Example.com''" "''TestHost.Example.com''"] 3 4
  show ?thesis by simp
qed

subsection \<open>Unexpected exceptions\<close>

text \<open>
  C1, as stated: the body of the 500 never contains the text of an unexpected exception.
  This fails inside the \<open>try\<close> block of \<open>trigger_awx_job\<close>, whose last handler puts
  the text in the error message that \<open>provision\<close> returns: a lookup result without
  an \<open>id\<close> raises \<open>KeyError\<close>, and its text is in the body.
\<close>

theorem missing_id_detail_exposed:
  "fst (launch_named scripted test_config ''testhost.example.com'' ''/api/v2/job_templates/''
          ''test-template'' ''Template not found'' ''template''
          ([answer 200 ''OK'' (JObj [(''results'', JArr [JObj [(''name'', JStr ''test-template'')]])])],
           []))
     = Inl (Exception (quoted ''id''))
   \<and> fst (provision scripted test_config (json_request ''testhost.example.com'')
          ([answer 200 ''OK'' (JObj [(''results'', JArr [JObj [(''name'', JStr ''test-template'')]])])],
           []))
     = (500, JObj [(''success'', JBool False), (''hostname'', JStr ''testhost.example.com''),
                   (''error'', JStr (''Unexpected error: '' @ quoted ''id''))])
   \<and> exposes (snd (fst (provision scripted test_config (json_request ''testhost.example.com'')
          ([answer 200 ''OK'' (JObj [(''results'', JArr [JObj [(''name'', JStr ''test-template'')]])])],
           [])))) (quoted ''id'')"
proof -
  let ?w = "[answer 200 ''OK'' (JObj [(''results'', JArr [JObj [(''name'', JStr ''test-template'')]])])]"
  have l: "launch_named scripted test_config ''testhost.example.com'' ''/api/v2/job_templates/''
          ''test-template'' ''Template not found'' ''template'' (?w, [])
        = (Inl (Exception (quoted ''id'')),
           ([], [lookup_request test_config ''/api/v2/job_templates/'' ''test-template'']))"
    by (simp add: launch_named_def and_then_def requests_call_def lift_def returns_def
          scripted_def answer_def raise_for_status_def)
  have s: "sanitize_hostname test_config (Some ''testhost.example.com'')
             = Some ''testhost.example.com''"
    by code_simp
  have p: "fst (provision scripted test_config (json_request ''testhost.example.com'') (?w, []))
     = (500, JObj [(''success'', JBool False), (''hostname'', JStr ''testhost.example.com''),
                   (''error'', JStr (''Unexpected error: '' @ quoted ''id''))])"
    by (simp add: provision_sanitized [OF extract_json_request s]
          trigger_kind [OF test_config_kind] l job_response_def)
  have "sublist (quoted ''id'') (''Unexpected error: '' @ quoted ''id'')"
    unfolding sublist_def by (rule exI [of _ "''Unexpected error: ''"], rule exI [of _ "[]"]) simp
  then have "exposes (JObj [(''success'', JBool False), (''hostname'', JStr ''testhost.example.com''),
                   (''error'', JStr (''Unexpected error: '' @ quoted ''id''))]) (quoted ''id'')"
    by (simp add: exposes_def)
  with l p show ?thesis by simp
qed

text \<open>
  C1, amended: an unexpected exception gives status 500. When it leaves the \<open>try\<close>
  block of \<open>provision\<close> (raised while reading the body, while sanitizing a value that
  is not a string, or while reading a result that is \<open>None\<close>), the body is the fixed
  \<open>{"error": "Internal server error"}\<close>, the same for every exception. When it is
  raised inside the \<open>try\<close> block of \<open>trigger_awx_job\<close>, the body carries the error
  \<open>Unexpected error:\<close> followed by the text of the exception.
\<close>

theorem unexpected_exception_response:
  "(provision_body env cfg rq st = (Inl e, st') \<longrightarrow>
      provision env cfg rq st = ((500, JObj [(''error'', JStr ''Internal server error'')]), st'))
   \<and> (extract_hostname (payload rq) = Inl e \<longrightarrow>
      provision env cfg rq st = ((500, JObj [(''error'', JStr ''Internal server error'')]), st))
   \<and> (extract_hostname (payload rq) = Inr v \<and> truthy v \<and> sanitize_value cfg v = Inl e \<longrightarrow>
      provision env cfg rq st = ((500, JObj [(''error'', JStr ''Internal server error'')]), st))
   \<and> (extract_hostname (payload rq) = Inr (JStr s) \<and> sanitize_hostname cfg (Some s) = Some h
       \<and> trigger_awx_job env cfg h st = (None, st') \<longrightarrow>
      provision env cfg rq st = ((500, JObj [(''error'', JStr ''Internal server error'')]), st'))
   \<and> (extract_hostname (payload rq) = Inr (JStr s) \<and> sanitize_hostname cfg (Some s) = Some h
       \<and> configured_kind cfg = Some (path, name, nf, jt)
       \<and> launch_named env cfg h path name nf jt st = (Inl (Exception d), st') \<longrightarrow>
      provision env cfg rq st
        = ((500, JObj [(''success'', JBool False), (''hostname'', JStr h),
                       (''error'', JStr (''Unexpected error: '' @ d))]), st'))"
proof -
  have 1: "provision env cfg rq st = ((500, JObj [(''error'', JStr ''Internal server error'')]), st')"
    if "provision_body env cfg rq st = (Inl e, st')"
    using that by (simp add: provision_def internal_server_error_def)
  have 2: "provision env cfg rq st = ((500, JObj [(''error'', JStr ''Internal server error'')]), st)"
    if "extract_hostname (payload rq) = Inl e"
    using that
    by (simp add: provision_def provision_body_def and_then_lift internal_server_error_def)
  have 3: "provision env cfg rq st = ((500, JObj [(''error'', JStr ''Internal server error'')]), st)"
    if "extract_hostname (payload rq) = Inr v" "truthy v" "sanitize_value cfg v = Inl e"
    using that
    by (simp add: provision_def provision_body_def and_then_lift internal_server_error_def)
  have 4: "provision env cfg rq st = ((500, JObj [(''error'', JStr ''Internal server error'')]), st')"
    if "extract_hostname (payload rq) = Inr (JStr s)" "sanitize_hostname cfg (Some s) = Some h"
       "trigger_awx_job env cfg h st = (None, st')"
    by (simp add: provision_sanitized [OF that(1,2)] that(3) job_response_def
          internal_server_error_def)
  have 5: "provision env cfg rq st
        = ((500, JObj [(''success'', JBool False), (''hostname'', JStr h),
                       (''error'', JStr (''Unexpected error: '' @ d))]), st')"
    if "extract_hostname (payload rq) = Inr (JStr s)" "sanitize_hostname cfg (Some s) = Some h"
       "configured_kind cfg = Some (path, name, nf, jt)"
       "launch_named env cfg h path name nf jt st = (Inl (Exception d), st')"
    by (simp add: provision_sanitized [OF that(1,2)] trigger_kind [OF that(3)] that(4)
          job_response_def)
  from 1 2 3 4 5 show ?thesis by blast
qed

theorem unexpected_exception_response_witness:
  "provision scripted test_config
      \<lparr> remote_address = ''192.0.2.1'', payload = Json (Inr (JArr [JStr ''testhost''])) \<rparr>
      ([], [])
     = ((500, JObj [(''error'', JStr ''Internal server error'')]), ([], []))
   \<and> provision scripted test_config
      \<lparr> remote_address = ''192.0.2.1'', payload = Json (Inr (JObj [(''hostname'', JNum 7)])) \<rparr>
      ([], [])
     = ((500, JObj [(''error'', JStr ''Internal server error'')]), ([], []))
   \<and> provision scripted test_config (json_request ''testhost'') ([answer 200 ''OK'' (JArr [])], [])
     = ((500, JObj [(''success'', JBool False), (''hostname'', JStr ''testhost''),
                    (''error'', JStr (''Unexpected error: '' @ quoted ''list''
                                       @ '' object has no attribute '' @ quoted ''get''))]),
        ([], [lookup_request test_config ''/api/v2/job_templates/'' ''test-template'']))
   \<and> provision scripted test_config
      \<lparr> remote_address = ''192.0.2.1'', payload = Json (Inl (Exception ''400 Bad Request'')) \<rparr>
      ([], [])
     = ((500, JObj [(''error'', JStr ''Internal server error'')]), ([], []))
   \<and> provision scripted (test_config \<lparr> AWX_TEMPLATE_NAME := None \<rparr>)
        (json_request ''testhost'') ([], [])
     = ((500, JObj [(''error'', JStr ''Internal server error'')]), ([], []))"
proof -
  let ?rq0 = "\<lparr> remote_address = ''192.0.2.1'',
                payload = Json (Inl (Exception ''400 Bad Request'')) \<rparr>"
  let ?cfg0 = "test_config \<lparr> AWX_TEMPLATE_NAME := None \<rparr>"
  let ?rq1 = "\<lparr> remote_address = ''192.0.2.1'', payload = Json (Inr (JArr [JStr ''testhost''])) \<rparr>"
  let ?rq2 = "\<lparr> remote_address = ''192.0.2.1'',
                payload = Json (Inr (JObj [(''hostname'', JNum 7)])) \<rparr>"
  let ?d = "quoted ''list'' @ '' object has no attribute '' @ quoted ''get''"
  let ?st = "([], []) :: (exn + response) list net"
  have a: "extract_hostname (payload ?rq1) = Inl (Exception ?d)"
    by (simp add: extract_hostname_def)
  have b: "extract_hostname (payload ?rq2) = Inr (JNum 7) \<and> truthy (JNum 7)
           \<and> sanitize_value test_config (JNum 7)
               = Inl (Exception (quoted ''int'' @ '' object has no attribute '' @ quoted ''strip''))"
    by (simp add: extract_hostname_def sanitize_value_def)
  have c: "sanitize_hostname test_config (Some ''testhost'') = Some ''testhost''"
    by code_simp
  have d: "launch_named scripted test_config ''testhost'' ''/api/v2/job_templates/''
             ''test-template'' ''Template not found'' ''template''
             ([answer 200 ''OK'' (JArr [])], [])
           = (Inl (Exception ?d),
              ([], [lookup_request test_config ''/api/v2/job_templates/'' ''test-template'']))"
    by (simp add: launch_named_def and_then_def requests_call_def lift_def returns_def
          scripted_def answer_def raise_for_status_def)
  from unexpected_exception_response [where env = scripted and cfg = test_config and rq = ?rq1
         and st = ?st and e = "Exception ?d"] a
  have 1: "provision scripted test_config ?rq1 ?st
             = ((500, JObj [(''error'', JStr ''Internal server error'')]), ?st)"
    by blast
  from unexpected_exception_response [where env = scripted and cfg = test_config and rq = ?rq2
         and st = ?st and v = "JNum 7"
         and e = "Exception (quoted ''int'' @ '' object has no attribute '' @ quoted ''strip'')"] b
  have 2: "provision scripted test_config ?rq2 ?st
             = ((500, JObj [(''error'', JStr ''Internal server error'')]), ?st)"
    by blast
  from unexpected_exception_response [where env = scripted and cfg = test_config
         and rq = "json_request ''testhost''" and st = "([answer 200 ''OK'' (JArr [])], [])"
         and s = "''testhost''" and h = "''testhost''" and path = "''/api/v2/job_templates/''"
         and name = "''test-template''" and nf = "''Template not found''" and jt = "''template''"
         and d = ?d
         and st' = "([], [lookup_request test_config ''/api/v2/job_templates/'' ''test-template''])"]
       extract_json_request [of "''testhost''"] c d test_config_kind
  have 3: "provision scripted test_config (json_request ''testhost'')
             ([answer 200 ''OK'' (JArr [])], [])
     = ((500, JObj [(''success'', JBool False), (''hostname'', JStr ''testhost''),
                    (''error'', JStr (''Unexpected error: '' @ ?d))]),
        ([], [lookup_request test_config ''/api/v2/job_templates/'' ''test-template'']))"
    by blast
  have e: "provision_body scripted test_config ?rq0 ?st
             = (Inl (Exception ''400 Bad Request''), ?st)"
    by (simp add: provision_body_def and_then_lift extract_hostname_def)
  from unexpected_exception_response [where env = scripted and cfg = test_config and rq = ?rq0
         and st = ?st and e = "Exception ''400 Bad Request''" and st' = ?st] e
  have 4: "provision scripted test_config ?rq0 ?st
             = ((500, JObj [(''error'', JStr ''Internal server error'')]), ?st)"
    by blast
  have c0: "sanitize_hostname ?cfg0 (Some ''testhost'') = Some ''testhost''"
    by code_simp
  have n: "trigger_awx_job scripted ?cfg0 ''testhost'' ?st = (None, ?st)"
    by (rule trigger_unconfigured) (simp add: configured_kind_def test_config_def)
  from unexpected_exception_response [where env = scripted and cfg = ?cfg0
         and rq = "json_request ''testhost''" and st = ?st and s = "''testhost''"
         and h = "''testhost''" and st' = ?st]
       extract_json_request [of "''testhost''"] c0 n
  have 5: "provision scripted ?cfg0 (json_request ''testhost'') ?st
             = ((500, JObj [(''error'', JStr ''Internal server error'')]), ?st)"
    by blast
  from 1 2 3 4 5 show ?thesis by simp
qed

section \<open>Properties of the rate limiter\<close>

subsection \<open>Counters and decisions\<close>

lemma consume_apply:
  "consume lim cs k now k' w
     = (if k' = k \<and> w = window_of lim now then Suc (cs k w) else cs k' w)"
  by (simp add: consume_def)

lemma limiter_step_client:
  "limiter_step cfg cs r = (ok, cs') \<Longrightarrow>
     cs' (Client ip) w
       = cs (Client ip) w
         + (if ok \<and> snd r = ip \<and> window_of (PER_IP_RATE_LIMIT cfg) (fst r) = w then 1 else 0)"
  by (auto simp: limiter_step_def consume_apply split: if_splits)

lemma limiter_step_shared:
  "limiter_step cfg cs r = (ok, cs') \<Longrightarrow>
     cs' Shared w
       = cs Shared w + (if ok \<and> window_of (GLOBAL_RATE_LIMIT cfg) (fst r) = w then 1 else 0)"
  by (auto simp: limiter_step_def consume_apply split: if_splits)

lemma limiter_run_length: "limiter_run cfg cs rs = (oks, cs') \<Longrightarrow> length oks = length rs"
  by (induction rs arbitrary: cs oks cs') (auto split: prod.splits)

lemma limiter_run_client:
  "limiter_run cfg cs rs = (oks, cs') \<Longrightarrow>
     cs' (Client ip) w = cs (Client ip) w + admitted_client cfg rs oks ip w"
proof (induction rs arbitrary: cs oks cs')
  case Nil
  then show ?case by (simp add: admitted_client_def)
next
  case (Cons r rs)
  obtain ok cs1 where step: "limiter_step cfg cs r = (ok, cs1)" by (metis surj_pair)
  obtain oks1 cs2 where run: "limiter_run cfg cs1 rs = (oks1, cs2)" by (metis surj_pair)
  from Cons.prems step run have eq: "oks = ok # oks1" "cs' = cs2" by auto
  from Cons.IH [OF run] limiter_step_client [OF step, of ip w]
  show ?case by (auto simp: eq admitted_client_def)
qed

lemma limiter_run_shared:
  "limiter_run cfg cs rs = (oks, cs') \<Longrightarrow>
     cs' Shared w = cs Shared w + admitted_global cfg rs oks w"
proof (induction rs arbitrary: cs oks cs')
  case Nil
  then show ?case by (simp add: admitted_global_def)
next
  case (Cons r rs)
  obtain ok cs1 where step: "limiter_step cfg cs r = (ok, cs1)" by (metis surj_pair)
  obtain oks1 cs2 where run: "limiter_run cfg cs1 rs = (oks1, cs2)" by (metis surj_pair)
  from Cons.prems step run have eq: "oks = ok # oks1" "cs' = cs2" by auto
  from Cons.IH [OF run] limiter_step_shared [OF step, of w]
  show ?case by (auto simp: eq admitted_global_def)
qed

lemma limiter_step_within:
  "within_limits cfg cs \<Longrightarrow> limiter_step cfg cs r = (ok, cs') \<Longrightarrow> within_limits cfg cs'"
  by (auto simp: within_limits_def limiter_step_def consume_apply has_capacity_def
           split: if_splits)

lemma limiter_run_within:
  "within_limits cfg cs \<Longrightarrow> limiter_run cfg cs rs = (oks, cs') \<Longrightarrow> within_limits cfg cs'"
proof (induction rs arbitrary: cs oks cs')
  case Nil
  then show ?case by simp
next
  case (Cons r rs)
  obtain ok cs1 where step: "limiter_step cfg cs r = (ok, cs1)" by (metis surj_pair)
  obtain oks1 cs2 where run: "limiter_run cfg cs1 rs = (oks1, cs2)" by (metis surj_pair)
  from Cons.prems(2) step run have "cs' = cs2" by auto
  with Cons.IH [OF limiter_step_within [OF Cons.prems(1) step] run] show ?case by simp
qed

lemma within_no_counts: "within_limits cfg no_counts"
  by (simp add: within_limits_def no_counts_def)

lemma limiter_step_decision:
  "fst (limiter_step cfg cs (now, ip))
     = (cs (Client ip) (window_of (PER_IP_RATE_LIMIT cfg) now) < amount (PER_IP_RATE_LIMIT cfg)
        \<and> cs Shared (window_of (GLOBAL_RATE_LIMIT cfg) now) < amount (GLOBAL_RATE_LIMIT cfg))"
  by (simp add: limiter_step_def has_capacity_def)

lemma admitted_client_none:
  assumes "\<forall>r\<in>set rs. snd r = ip \<longrightarrow> window_of (PER_IP_RATE_LIMIT cfg) (fst r) \<noteq> w"
  shows "admitted_client cfg rs oks ip w = 0"
  using assms by (auto simp: admitted_client_def filter_empty_conv dest: set_zip_leftD)

text \<open>Requests of one client in one window, with global quota to spare.\<close>

lemma same_window_decisions:
  assumes "\<forall>t\<in>set ts. window_of (PER_IP_RATE_LIMIT cfg) t = w"
    and "cs (Client ip) w = c"
    and "\<forall>g. cs Shared g + length ts \<le> amount (GLOBAL_RATE_LIMIT cfg)"
  shows "fst (limiter_run cfg cs (map (\<lambda>t. (t, ip)) ts))
           = map (\<lambda>k. c + k < amount (PER_IP_RATE_LIMIT cfg)) [0..<length ts]"
  using assms
proof (induction ts arbitrary: cs c)
  case Nil
  then show ?case by simp
next
  case (Cons t ts)
  let ?N = "amount (PER_IP_RATE_LIMIT cfg)"
  obtain ok cs1 where step: "limiter_step cfg cs (t, ip) = (ok, cs1)" by (metis surj_pair)
  from Cons.prems have tw: "window_of (PER_IP_RATE_LIMIT cfg) t = w" by simp
  from Cons.prems(3) have "cs Shared (window_of (GLOBAL_RATE_LIMIT cfg) t) + Suc (length ts)
                            \<le> amount (GLOBAL_RATE_LIMIT cfg)"
    by (metis length_Cons)
  then have room: "cs Shared (window_of (GLOBAL_RATE_LIMIT cfg) t) < amount (GLOBAL_RATE_LIMIT cfg)"
    by simp
  from step limiter_step_decision [of cfg cs t ip] room tw Cons.prems(2)
  have ok: "ok = (c < ?N)" by simp
  have c1: "cs1 (Client ip) w = c + (if ok then 1 else 0)"
    using limiter_step_client [OF step, of ip w] tw Cons.prems(2) by simp
  have g1: "\<forall>g. cs1 Shared g + length ts \<le> amount (GLOBAL_RATE_LIMIT cfg)"
  proof
    fix g
    from Cons.prems(3) have "cs Shared g + Suc (length ts) \<le> amount (GLOBAL_RATE_LIMIT cfg)"
      by (metis length_Cons)
    with limiter_step_shared [OF step, of g] show "cs1 Shared g + length ts \<le> amount (GLOBAL_RATE_LIMIT cfg)"
      by (simp split: if_splits)
  qed
  from Cons.prems(1) have ws: "\<forall>t\<in>set ts. window_of (PER_IP_RATE_LIMIT cfg) t = w" by simp
  note IH = Cons.IH [OF ws c1 g1]
  have rest: "map (\<lambda>k. c + (if ok then 1 else 0) + k < ?N) [0..<length ts]
                = map (\<lambda>k. c + Suc k < ?N) [0..<length ts]"
    using ok by auto
  have "fst (limiter_run cfg cs (map (\<lambda>t. (t, ip)) (t # ts)))
          = ok # fst (limiter_run cfg cs1 (map (\<lambda>t. (t, ip)) ts))"
    using step by (simp split: prod.splits)
  also have "\<dots> = (c + 0 < ?N) # map (\<lambda>k. c + Suc k < ?N) [0..<length ts]"
    using IH rest ok by simp
  also have "\<dots> = map (\<lambda>k. c + k < ?N) [0..<length (t # ts)]"
    by (simp add: upt_conv_Cons map_Suc_upt [symmetric] del: upt_Suc)
  finally show ?case .
qed

lemma provision_status: "fst (fst (provision env cfg rq st)) \<in> {200, 400, 500}"
  by (auto simp: provision_def provision_body_def and_then_def lift_def returns_def
        job_response_def internal_server_error_def
        split: prod.splits sum.splits option.splits job_result.splits if_splits)

subsection \<open>The limits come before validation\<close>

lemma limiter_step_consumes:
  assumes "fst (limiter_step cfg cs (now, ip))"
  shows "snd (limiter_step cfg cs (now, ip)) (Client ip) (window_of (PER_IP_RATE_LIMIT cfg) now)
           = Suc (cs (Client ip) (window_of (PER_IP_RATE_LIMIT cfg) now))
       \<and> snd (limiter_step cfg cs (now, ip)) Shared (window_of (GLOBAL_RATE_LIMIT cfg) now)
           = Suc (cs Shared (window_of (GLOBAL_RATE_LIMIT cfg) now))"
  using assms by (auto simp: limiter_step_def consume_apply split: if_splits)

lemma post_provision_rejected:
  "\<not> fst (limiter_step cfg cs (now, remote_address rq)) \<Longrightarrow>
     post_provision env cfg hint now rq (cs, st) = (ratelimit_handler hint, cs, st)"
  by (auto simp: post_provision_def limiter_step_def split: if_splits)

lemma post_provision_admitted:
  "fst (limiter_step cfg cs (now, remote_address rq)) \<Longrightarrow>
     post_provision env cfg hint now rq (cs, st)
       = (fst (provision env cfg rq st), snd (limiter_step cfg cs (now, remote_address rq)),
          snd (provision env cfg rq st))"
  by (auto simp: post_provision_def split: prod.splits bool.splits)

lemma provision_missing:
  "extract_hostname (payload rq) = Inr v \<Longrightarrow> \<not> truthy v \<Longrightarrow>
     provision env cfg rq st
       = ((400, JObj [(''error'', JStr ''hostname parameter is required'')]), st)"
  by (simp add: provision_def provision_body_def and_then_lift returns_def)

lemma provision_invalid:
  "extract_hostname (payload rq) = Inr (JStr s) \<Longrightarrow> s \<noteq> [] \<Longrightarrow>
   sanitize_hostname cfg (Some s) = None \<Longrightarrow>
     provision env cfg rq st = ((400, JObj [(''error'', JStr ''Invalid hostname format'')]), st)"
  by (simp add: provision_def provision_body_def and_then_lift returns_def sanitize_value_def)

text \<open>
  C2: the limits are checked before \<open>provision\<close> runs. A rejected request is answered
  by \<open>ratelimit_handler\<close>, with the counters and the outside world unchanged, whatever
  its body. An admitted request whose hostname is missing or invalid is answered with
  status 400 by \<open>provision\<close>, sends nothing, and has consumed one unit of the quota of
  its client and one unit of the global quota.
\<close>

theorem limit_consumed_before_validation:
  "(\<not> fst (limiter_step cfg cs (now, remote_address rq)) \<longrightarrow>
      post_provision env cfg hint now rq (cs, st) = (ratelimit_handler hint, cs, st))
   \<and> (fst (limiter_step cfg cs (now, remote_address rq))
       \<and> ((extract_hostname (payload rq) = Inr v \<and> \<not> truthy v
            \<and> resp = (400, JObj [(''error'', JStr ''hostname parameter is required'')]))
          \<or> (extract_hostname (payload rq) = Inr (JStr s) \<and> s \<noteq> []
              \<and> sanitize_hostname cfg (Some s) = None
              \<and> resp = (400, JObj [(''error'', JStr ''Invalid hostname format'')])))
      \<longrightarrow> fst (post_provision env cfg hint now rq (cs, st)) = resp
          \<and> snd (snd (post_provision env cfg hint now rq (cs, st))) = st
          \<and> fst (snd (post_provision env cfg hint now rq (cs, st)))
               (Client (remote_address rq)) (window_of (PER_IP_RATE_LIMIT cfg) now)
             = Suc (cs (Client (remote_address rq)) (window_of (PER_IP_RATE_LIMIT cfg) now))
          \<and> fst (snd (post_provision env cfg hint now rq (cs, st)))
               Shared (window_of (GLOBAL_RATE_LIMIT cfg) now)
             = Suc (cs Shared (window_of (GLOBAL_RATE_LIMIT cfg) now)))"
proof (intro conjI impI)
  assume "\<not> fst (limiter_step cfg cs (now, remote_address rq))"
  then show "post_provision env cfg hint now rq (cs, st) = (ratelimit_handler hint, cs, st)"
    by (rule post_provision_rejected)
next
  assume a: "fst (limiter_step cfg cs (now, remote_address rq))
       \<and> ((extract_hostname (payload rq) = Inr v \<and> \<not> truthy v
            \<and> resp = (400, JObj [(''error'', JStr ''hostname parameter is required'')]))
          \<or> (extract_hostname (payload rq) = Inr (JStr s) \<and> s \<noteq> []
              \<and> sanitize_hostname cfg (Some s) = None
              \<and> resp = (400, JObj [(''error'', JStr ''Invalid hostname format'')])))"
  then have adm: "fst (limiter_step cfg cs (now, remote_address rq))" by simp
  from a have p: "provision env cfg rq st = (resp, st)"
    using provision_missing provision_invalid by blast
  note pp = post_provision_admitted [OF adm, of env hint st]
  note cons = limiter_step_consumes [OF adm]
  show "fst (post_provision env cfg hint now rq (cs, st)) = resp"
    by (simp add: pp p)
  show "snd (snd (post_provision env cfg hint now rq (cs, st))) = st"
    by (simp add: pp p)
  show "fst (snd (post_provision env cfg hint now rq (cs, st)))
               (Client (remote_address rq)) (window_of (PER_IP_RATE_LIMIT cfg) now)
             = Suc (cs (Client (remote_address rq)) (window_of (PER_IP_RATE_LIMIT cfg) now))"
    using cons by (simp add: pp)
  show "fst (snd (post_provision env cfg hint now rq (cs, st)))
               Shared (window_of (GLOBAL_RATE_LIMIT cfg) now)
             = Suc (cs Shared (window_of (GLOBAL_RATE_LIMIT cfg) now))"
    using cons by (simp add: pp)
qed

theorem limit_consumed_before_validation_witness:
  "fst (limiter_step test_config no_counts (0, ''192.0.2.1''))
   \<and> fst (post_provision scripted test_config JNull 0 (json_request ''host..name'')
            (no_counts, ([], [])))
       = (400, JObj [(''error'', JStr ''Invalid hostname format'')])
   \<and> fst (snd (post_provision scripted test_config JNull 0 (json_request ''host..name'')
            (no_counts, ([], [])))) (Client ''192.0.2.1'') 0 = 1
   \<and> fst (snd (post_provision scripted test_config JNull 0 (json_request ''host..name'')
            (no_counts, ([], [])))) Shared 0 = 1
   \<and> fst (post_provision scripted test_config JNull 0
            \<lparr> remote_address = ''192.0.2.1'', payload = Form [] \<rparr> (no_counts, ([], [])))
       = (400, JObj [(''error'', JStr ''hostname parameter is required'')])
   \<and> fst (snd (post_provision scripted test_config JNull 0
            \<lparr> remote_address = ''192.0.2.1'', payload = Form [] \<rparr> (no_counts, ([], []))))
        (Client ''192.0.2.1'') 0 = 1
   \<and> \<not> fst (limiter_step test_config
              (snd (limiter_step test_config no_counts (0, ''192.0.2.1''))) (10, ''192.0.2.1''))
   \<and> post_provision scripted test_config JNull 10 (json_request ''host..name'')
        (snd (limiter_step test_config no_counts (0, ''192.0.2.1'')), ([], []))
      = (ratelimit_handler JNull, snd (limiter_step test_config no_counts (0, ''192.0.2.1'')),
         ([], []))"
proof -
  let ?st = "([], []) :: (exn + response) list net"
  let ?rq = "\<lparr> remote_address = ''192.0.2.1'', payload = Form [] \<rparr>"
  let ?cs1 = "snd (limiter_step test_config no_counts (0, ''192.0.2.1''))"
  have rej: "\<not> fst (limiter_step test_config ?cs1 (10, ''192.0.2.1''))"
    by (simp add: limiter_step_def has_capacity_def consume_def window_of_def no_counts_def
          test_config_def)
  have adm: "fst (limiter_step test_config no_counts (0, ''192.0.2.1''))"
    by (simp add: limiter_step_decision no_counts_def test_config_def)
  have w: "window_of (PER_IP_RATE_LIMIT test_config) 0 = 0
           \<and> window_of (GLOBAL_RATE_LIMIT test_config) 0 = 0"
    by (simp add: window_of_def)
  have r: "remote_address (json_request ''host..name'') = ''192.0.2.1''"
    by (simp add: json_request_def)
  have inv: "extract_hostname (payload (json_request ''host..name'')) = Inr (JStr ''host..name'')
             \<and> ''host..name'' \<noteq> []
             \<and> sanitize_hostname test_config (Some ''host..name'') = None"
    by code_simp
  have mis: "extract_hostname (payload ?rq) = Inr JNull \<and> \<not> truthy JNull"
    by (simp add: extract_hostname_def)
  from limit_consumed_before_validation [where cfg = test_config and cs = no_counts
         and now = 0 and rq = "json_request ''host..name''" and env = scripted and hint = JNull
         and st = ?st and s = "''host..name''"
         and resp = "(400, JObj [(''error'', JStr ''Invalid hostname format'')])"]
       adm r inv w
  have 1: "fst (post_provision scripted test_config JNull 0 (json_request ''host..name'')
            (no_counts, ?st))
       = (400, JObj [(''error'', JStr ''Invalid hostname format'')])
   \<and> fst (snd (post_provision scripted test_config JNull 0 (json_request ''host..name'')
            (no_counts, ?st))) (Client ''192.0.2.1'') 0 = 1
   \<and> fst (snd (post_provision scripted test_config JNull 0 (json_request ''host..name'')
            (no_counts, ?st))) Shared 0 = 1"
    by (simp add: no_counts_def)
  from limit_consumed_before_validation [where cfg = test_config and cs = no_counts
         and now = 0 and rq = ?rq and env = scripted and hint = JNull
         and st = ?st and v = JNull
         and resp = "(400, JObj [(''error'', JStr ''hostname parameter is required'')])"]
       adm mis w
  have 2: "fst (post_provision scripted test_config JNull 0 ?rq (no_counts, ?st))
       = (400, JObj [(''error'', JStr ''hostname parameter is required'')])
   \<and> fst (snd (post_provision scripted test_config JNull 0 ?rq (no_counts, ?st)))
        (Client ''192.0.2.1'') 0 = 1"
    by (simp add: no_counts_def)
  from limit_consumed_before_validation [where cfg = test_config and cs = ?cs1
         and now = 10 and rq = "json_request ''host..name''" and env = scripted and hint = JNull
         and st = ?st] rej r
  have 3: "post_provision scripted test_config JNull 10 (json_request ''host..name'') (?cs1, ?st)
             = (ratelimit_handler JNull, ?cs1, ?st)"
    by simp
  from adm rej 1 2 3 show ?thesis by simp
qed

subsection \<open>At most N requests per window\<close>

lemma post_provision_429:
  "(fst (fst (post_provision env cfg hint now rq (cs, st))) = 429)
     = (\<not> fst (limiter_step cfg cs (now, remote_address rq)))"
proof (cases "fst (limiter_step cfg cs (now, remote_address rq))")
  case True
  with provision_status [of env cfg rq st] show ?thesis
    by (auto simp: post_provision_admitted)
next
  case False
  then show ?thesis by (simp add: post_provision_rejected ratelimit_handler_def)
qed

text \<open>The route hands the counters of the limiter from each request to the next.\<close>

lemma post_provision_counters:
  "fst (snd (post_provision env cfg hint now rq (cs, st)))
     = snd (limiter_step cfg cs (now, remote_address rq))"
proof (cases "fst (limiter_step cfg cs (now, remote_address rq))")
  case True
  then show ?thesis by (simp add: post_provision_admitted)
next
  case False
  note rejected = False
  have "snd (limiter_step cfg cs (now, remote_address rq)) = cs"
  proof (cases "has_capacity (PER_IP_RATE_LIMIT cfg) cs (Client (remote_address rq)) now
                 \<and> has_capacity (GLOBAL_RATE_LIMIT cfg) cs Shared now")
    case True
    then have "fst (limiter_step cfg cs (now, remote_address rq))"
      by (simp add: limiter_step_def)
    with rejected show ?thesis by simp
  next
    case False
    then show ?thesis unfolding limiter_step_def by (simp only: fst_conv snd_conv if_False)
  qed
  with rejected show ?thesis by (simp add: post_provision_rejected)
qed

lemma post_provision_handler:
  "fst (fst (post_provision env cfg hint now rq (cs, st))) = 429 \<Longrightarrow>
     fst (post_provision env cfg hint now rq (cs, st)) = ratelimit_handler hint"
  using post_provision_429 [of env cfg hint now rq cs st]
  by (simp add: post_provision_rejected)

lemma serve_Cons:
  "post_provision env cfg hint (fst tr) (snd tr) state = (resp, state') \<Longrightarrow>
   serve env cfg hint trs state' = (resps, state'') \<Longrightarrow>
     serve env cfg hint (tr # trs) state = (resp # resps, state'')"
  by simp

lemma limiter_run_Cons:
  "limiter_step cfg cs r = (ok, cs1) \<Longrightarrow> limiter_run cfg cs1 rs = (oks, cs2) \<Longrightarrow>
     limiter_run cfg cs (r # rs) = (ok # oks, cs2)"
  by simp

lemma serve_limiter:
  "serve env cfg hint trs (cs, st) = (resps, cs', st') \<Longrightarrow>
     limiter_run cfg cs (arrivals trs) = (passed resps, cs')"
proof (induction trs arbitrary: cs st resps cs' st')
  case Nil
  then show ?case by (simp add: arrivals_def passed_def)
next
  case (Cons tr trs)
  obtain resp cs1 st1
    where pp: "post_provision env cfg hint (fst tr) (snd tr) (cs, st) = (resp, cs1, st1)"
    by (rule prod_cases3)
  obtain resps1 cs2 st2 where sv: "serve env cfg hint trs (cs1, st1) = (resps1, cs2, st2)"
    by (rule prod_cases3)
  from Cons.prems [unfolded serve_Cons [OF pp sv]]
  have eq: "resps = resp # resps1" "cs' = cs2" by simp_all
  from post_provision_429 [of env cfg hint "fst tr" "snd tr" cs st]
  have ok: "fst (limiter_step cfg cs (fst tr, remote_address (snd tr))) = (fst resp \<noteq> 429)"
    unfolding pp by simp
  from post_provision_counters [of env cfg hint "fst tr" "snd tr" cs st]
  have c1: "snd (limiter_step cfg cs (fst tr, remote_address (snd tr))) = cs1"
    unfolding pp by simp
  from ok c1 have step: "limiter_step cfg cs (fst tr, remote_address (snd tr))
                           = (fst resp \<noteq> 429, cs1)"
    by (simp add: prod_eq_iff)
  from Cons.IH [OF sv] have run: "limiter_run cfg cs1 (arrivals trs) = (passed resps1, cs2)" .
  have a: "arrivals (tr # trs) = (fst tr, remote_address (snd tr)) # arrivals trs"
    by (simp add: arrivals_def)
  have p: "passed (resp # resps1) = (fst resp \<noteq> 429) # passed resps1"
    by (simp add: passed_def)
  from limiter_run_Cons [OF step run] show ?case
    unfolding a p eq .
qed

lemma serve_handler:
  "serve env cfg hint trs (cs, st) = (resps, cs', st') \<Longrightarrow>
     \<forall>resp\<in>set resps. fst resp = 429 \<longrightarrow> resp = ratelimit_handler hint"
proof (induction trs arbitrary: cs st resps cs' st')
  case Nil
  then show ?case by simp
next
  case (Cons tr trs)
  obtain resp cs1 st1
    where pp: "post_provision env cfg hint (fst tr) (snd tr) (cs, st) = (resp, cs1, st1)"
    by (rule prod_cases3)
  obtain resps1 cs2 st2 where sv: "serve env cfg hint trs (cs1, st1) = (resps1, cs2, st2)"
    by (rule prod_cases3)
  from Cons.prems [unfolded serve_Cons [OF pp sv]]
  have eq: "resps = resp # resps1" by simp
  from post_provision_handler [of env cfg hint "fst tr" "snd tr" cs st]
  have "fst resp = 429 \<longrightarrow> resp = ratelimit_handler hint" unfolding pp by simp
  with Cons.IH [OF sv] show ?case by (simp add: eq)
qed

lemma arrivals_one_client:
  "\<forall>tr\<in>set trs. remote_address (snd tr) = ip \<Longrightarrow>
     arrivals trs = map (\<lambda>t. (t, ip)) (map fst trs)"
  by (induction trs) (auto simp: arrivals_def)

text \<open>
  C3: let any sequence of requests be served by the route one after the other, starting
  from empty counters, each request meeting the counters the one before it left. There is
  one response for each request. The requests of one client in one window of the
  per-client limit that were not answered with status 429 are at most the amount of that
  limit, and the requests in one window of the global limit that were not answered with
  429 are at most the amount of the global limit. A further request to the route is
  answered with 429 exactly when one of these two numbers, for the windows of its arrival,
  has reached its amount. Every response with status 429 is the one of
  \<open>ratelimit_handler\<close>. If all the requests come from one client inside one window, and
  they are no more than the global amount, then with N the per-client amount the first N
  are not answered with 429 and every later one is: the N-th passes and the (N+1)-th is
  rejected with 429. And a further request arriving in a window in which its client has
  sent nothing is not answered with 429, if N is positive and the global quota of its
  window has room: admission resumes once the window rolls over.
\<close>

theorem route_admits_at_most:
  assumes "serve env cfg hint trs (no_counts, st) = (resps, cs, st')"
  shows
   "length resps = length trs
    \<and> admitted_client cfg (arrivals trs) (passed resps) ip w \<le> amount (PER_IP_RATE_LIMIT cfg)
    \<and> admitted_global cfg (arrivals trs) (passed resps) g \<le> amount (GLOBAL_RATE_LIMIT cfg)
    \<and> (fst (fst (post_provision env cfg hint now rq (cs, st'))) = 429)
        = (\<not> (admitted_client cfg (arrivals trs) (passed resps) (remote_address rq)
                  (window_of (PER_IP_RATE_LIMIT cfg) now) < amount (PER_IP_RATE_LIMIT cfg)
               \<and> admitted_global cfg (arrivals trs) (passed resps)
                   (window_of (GLOBAL_RATE_LIMIT cfg) now) < amount (GLOBAL_RATE_LIMIT cfg)))
    \<and> (\<forall>resp\<in>set resps. fst resp = 429 \<longrightarrow> resp = ratelimit_handler hint)
    \<and> ((\<forall>tr\<in>set trs. remote_address (snd tr) = ip
                        \<and> window_of (PER_IP_RATE_LIMIT cfg) (fst tr) = w)
        \<and> length trs \<le> amount (GLOBAL_RATE_LIMIT cfg) \<longrightarrow>
          map (\<lambda>resp. fst resp = 429) resps
            = map (\<lambda>k. amount (PER_IP_RATE_LIMIT cfg) \<le> k) [0..<length trs])
    \<and> ((\<forall>tr\<in>set trs. remote_address (snd tr) = remote_address rq \<longrightarrow>
            window_of (PER_IP_RATE_LIMIT cfg) (fst tr) \<noteq> window_of (PER_IP_RATE_LIMIT cfg) now)
        \<and> 0 < amount (PER_IP_RATE_LIMIT cfg)
        \<and> admitted_global cfg (arrivals trs) (passed resps)
             (window_of (GLOBAL_RATE_LIMIT cfg) now) < amount (GLOBAL_RATE_LIMIT cfg) \<longrightarrow>
          fst (fst (post_provision env cfg hint now rq (cs, st'))) \<noteq> 429)"
proof -
  note run = serve_limiter [OF assms]
  have c: "cs (Client a) v = admitted_client cfg (arrivals trs) (passed resps) a v" for a v
    using limiter_run_client [OF run, of a v] by (simp add: no_counts_def)
  have s: "cs Shared v = admitted_global cfg (arrivals trs) (passed resps) v" for v
    using limiter_run_shared [OF run, of v] by (simp add: no_counts_def)
  have 0: "length resps = length trs"
    using limiter_run_length [OF run] by (simp add: passed_def arrivals_def)
  from limiter_run_within [OF within_no_counts run]
  have 1: "admitted_client cfg (arrivals trs) (passed resps) ip w \<le> amount (PER_IP_RATE_LIMIT cfg)"
    and 2: "admitted_global cfg (arrivals trs) (passed resps) g \<le> amount (GLOBAL_RATE_LIMIT cfg)"
    unfolding within_limits_def by (metis c, metis s)
  have 3: "(fst (fst (post_provision env cfg hint now rq (cs, st'))) = 429)
        = (\<not> (admitted_client cfg (arrivals trs) (passed resps) (remote_address rq)
                  (window_of (PER_IP_RATE_LIMIT cfg) now) < amount (PER_IP_RATE_LIMIT cfg)
               \<and> admitted_global cfg (arrivals trs) (passed resps)
                   (window_of (GLOBAL_RATE_LIMIT cfg) now) < amount (GLOBAL_RATE_LIMIT cfg)))"
    by (simp only: post_provision_429 limiter_step_decision c s)
  note 4 = serve_handler [OF assms]
  have 5: "map (\<lambda>resp. fst resp = 429) resps
            = map (\<lambda>k. amount (PER_IP_RATE_LIMIT cfg) \<le> k) [0..<length trs]"
    if a: "\<forall>tr\<in>set trs. remote_address (snd tr) = ip
                        \<and> window_of (PER_IP_RATE_LIMIT cfg) (fst tr) = w"
       and b: "length trs \<le> amount (GLOBAL_RATE_LIMIT cfg)"
  proof -
    from a have arr: "arrivals trs = map (\<lambda>t. (t, ip)) (map fst trs)"
      by (intro arrivals_one_client) simp
    from a have win: "\<forall>t\<in>set (map fst trs). window_of (PER_IP_RATE_LIMIT cfg) t = w" by simp
    have room: "\<forall>g. no_counts Shared g + length (map fst trs) \<le> amount (GLOBAL_RATE_LIMIT cfg)"
      using b by (simp add: no_counts_def)
    have zero: "no_counts (Client ip) w = 0" by (simp add: no_counts_def)
    from same_window_decisions [OF win zero room]
    have "fst (limiter_run cfg no_counts (map (\<lambda>t. (t, ip)) (map fst trs)))
            = map (\<lambda>k. k < amount (PER_IP_RATE_LIMIT cfg)) [0..<length trs]"
      by simp
    with run arr have p: "passed resps = map (\<lambda>k. k < amount (PER_IP_RATE_LIMIT cfg)) [0..<length trs]"
      by simp
    have "map (\<lambda>resp. fst resp = 429) resps = map Not (passed resps)"
      by (simp add: passed_def)
    also have "\<dots> = map (\<lambda>k. amount (PER_IP_RATE_LIMIT cfg) \<le> k) [0..<length trs]"
      unfolding p by (simp add: not_less)
    finally show ?thesis .
  qed
  have 6: "fst (fst (post_provision env cfg hint now rq (cs, st'))) \<noteq> 429"
    if a: "\<forall>tr\<in>set trs. remote_address (snd tr) = remote_address rq \<longrightarrow>
            window_of (PER_IP_RATE_LIMIT cfg) (fst tr) \<noteq> window_of (PER_IP_RATE_LIMIT cfg) now"
       and b: "0 < amount (PER_IP_RATE_LIMIT cfg)"
       and c: "admitted_global cfg (arrivals trs) (passed resps)
             (window_of (GLOBAL_RATE_LIMIT cfg) now) < amount (GLOBAL_RATE_LIMIT cfg)"
  proof -
    from a have "\<forall>r\<in>set (arrivals trs). snd r = remote_address rq \<longrightarrow>
            window_of (PER_IP_RATE_LIMIT cfg) (fst r) \<noteq> window_of (PER_IP_RATE_LIMIT cfg) now"
      by (auto simp: arrivals_def)
    then have "admitted_client cfg (arrivals trs) (passed resps) (remote_address rq)
                 (window_of (PER_IP_RATE_LIMIT cfg) now) = 0"
      by (rule admitted_client_none)
    with b c show ?thesis unfolding 3 by simp
  qed
  show ?thesis
  proof (intro conjI)
    show "length resps = length trs" by (rule 0)
    show "admitted_client cfg (arrivals trs) (passed resps) ip w \<le> amount (PER_IP_RATE_LIMIT cfg)"
      by (rule 1)
    show "admitted_global cfg (arrivals trs) (passed resps) g \<le> amount (GLOBAL_RATE_LIMIT cfg)"
      by (rule 2)
    show "(fst (fst (post_provision env cfg hint now rq (cs, st'))) = 429)
        = (\<not> (admitted_client cfg (arrivals trs) (passed resps) (remote_address rq)
                  (window_of (PER_IP_RATE_LIMIT cfg) now) < amount (PER_IP_RATE_LIMIT cfg)
               \<and> admitted_global cfg (arrivals trs) (passed resps)
                   (window_of (GLOBAL_RATE_LIMIT cfg) now) < amount (GLOBAL_RATE_LIMIT cfg)))"
      by (rule 3)
    show "\<forall>resp\<in>set resps. fst resp = 429 \<longrightarrow> resp = ratelimit_handler hint" by (rule 4)
    show "(\<forall>tr\<in>set trs. remote_address (snd tr) = ip
                        \<and> window_of (PER_IP_RATE_LIMIT cfg) (fst tr) = w)
        \<and> length trs \<le> amount (GLOBAL_RATE_LIMIT cfg) \<longrightarrow>
          map (\<lambda>resp. fst resp = 429) resps
            = map (\<lambda>k. amount (PER_IP_RATE_LIMIT cfg) \<le> k) [0..<length trs]"
      using 5 by blast
    show "(\<forall>tr\<in>set trs. remote_address (snd tr) = remote_address rq \<longrightarrow>
            window_of (PER_IP_RATE_LIMIT cfg) (fst tr) \<noteq> window_of (PER_IP_RATE_LIMIT cfg) now)
        \<and> 0 < amount (PER_IP_RATE_LIMIT cfg)
        \<and> admitted_global cfg (arrivals trs) (passed resps)
             (window_of (GLOBAL_RATE_LIMIT cfg) now) < amount (GLOBAL_RATE_LIMIT cfg) \<longrightarrow>
          fst (fst (post_provision env cfg hint now rq (cs, st'))) \<noteq> 429"
      using 6 by blast
  qed
qed


theorem route_admits_at_most_witness:
  "map (\<lambda>resp. fst resp = 429)
     (fst (serve scripted test_config JNull
             [(0, json_request ''testhost''), (10, json_request ''testhost''),
              (299, json_request ''testhost'')]
             (no_counts, ([], []))))
     = [False, True, True]
   \<and> fst (fst (post_provision scripted test_config JNull 300 (json_request ''testhost'')
            (snd (serve scripted test_config JNull
                    [(0, json_request ''testhost''), (10, json_request ''testhost''),
                     (299, json_request ''testhost'')]
                    (no_counts, ([], [])))))) \<noteq> 429"
proof -
  let ?ip = "''192.0.2.1''"
  let ?rq = "json_request ''testhost''"
  let ?trs = "[(0, ?rq), (10, ?rq), (299, ?rq)] :: (nat \<times> provision_request) list"
  let ?st = "([], []) :: (exn + response) list net"
  let ?X = "serve scripted test_config JNull ?trs (no_counts, ?st)"
  have sv: "?X = (fst ?X, fst (snd ?X), snd (snd ?X))"
    by (simp del: serve.simps)
  have lim: "amount (PER_IP_RATE_LIMIT test_config) = 1
             \<and> amount (GLOBAL_RATE_LIMIT test_config) = 100
             \<and> per_seconds (PER_IP_RATE_LIMIT test_config) = 300
             \<and> per_seconds (GLOBAL_RATE_LIMIT test_config) = 3600"
    by (simp add: test_config_def)
  have r: "remote_address ?rq = ?ip" by (simp add: json_request_def)
  note T = route_admits_at_most [OF sv, where ip = ?ip and w = 0 and g = 0 and now = 300
             and rq = ?rq]
  have same: "(\<forall>tr\<in>set ?trs. remote_address (snd tr) = ?ip
                  \<and> window_of (PER_IP_RATE_LIMIT test_config) (fst tr) = 0)
              \<and> length ?trs \<le> amount (GLOBAL_RATE_LIMIT test_config)"
    by (simp add: window_of_def lim r)
  have "map (\<lambda>resp. fst resp = 429) (fst ?X)
          = map (\<lambda>k. amount (PER_IP_RATE_LIMIT test_config) \<le> k) [0..<length ?trs]"
    by (rule mp [OF T [THEN conjunct2, THEN conjunct2, THEN conjunct2, THEN conjunct2,
                       THEN conjunct2, THEN conjunct1] same])
  then have a: "map (\<lambda>resp. fst resp = 429) (fst ?X) = [False, True, True]"
    by (simp add: lim upt_conv_Cons del: serve.simps)
  have "admitted_global test_config (arrivals ?trs) (passed (fst ?X))
          (window_of (GLOBAL_RATE_LIMIT test_config) 300) \<le> length (arrivals ?trs)"
    unfolding admitted_global_def
    by (rule order_trans [OF length_filter_le]) (simp del: serve.simps)
  then have glob: "admitted_global test_config (arrivals ?trs) (passed (fst ?X))
          (window_of (GLOBAL_RATE_LIMIT test_config) 300) < amount (GLOBAL_RATE_LIMIT test_config)"
    by (simp add: arrivals_def lim del: serve.simps)
  have fresh: "(\<forall>tr\<in>set ?trs. remote_address (snd tr) = remote_address ?rq \<longrightarrow>
                 window_of (PER_IP_RATE_LIMIT test_config) (fst tr)
                   \<noteq> window_of (PER_IP_RATE_LIMIT test_config) 300)
               \<and> 0 < amount (PER_IP_RATE_LIMIT test_config)"
    by (simp add: window_of_def lim)
  have b: "fst (fst (post_provision scripted test_config JNull 300 ?rq
                       (fst (snd ?X), snd (snd ?X)))) \<noteq> 429"
    by (rule mp [OF T [THEN conjunct2, THEN conjunct2, THEN conjunct2, THEN conjunct2,
                       THEN conjunct2, THEN conjunct2]])
       (use fresh glob in blast)
  from a b show ?thesis by (simp del: serve.simps)
qed

end
